theory Spec2Isabelle
  imports Complex_Main "HOL-Library.Multiset"
begin

section \<open>Vital kinds, readings and valid ranges\<close>

text \<open>
  The camera connector scripts work on Python dictionaries keyed by the vital kinds
  \<^verbatim>\<open>'hr'\<close>, \<^verbatim>\<open>'spo2'\<close>, \<^verbatim>\<open>'rr'\<close> and \<^verbatim>\<open>'temp'\<close>. A dictionary is a
  partial map; its keys are unique, and every dictionary the scripts build is filled in
  the order hr, spo2, rr, temp, so iterating \<^verbatim>\<open>d.items()\<close> is iterating \<open>kinds\<close>
  and skipping the absent keys. Python numbers (ints and floats parsed from short decimal
  strings) are modelled as exact rationals.
\<close>

datatype kind = HR | SPO2 | RR | TEMP

definition kinds :: "kind list" where
  "kinds = [HR, SPO2, RR, TEMP]"

type_synonym vitals = "kind \<rightharpoonup> rat"

text \<open>\<^verbatim>\<open>len(d)\<close> of a dictionary.\<close>

definition len :: "vitals \<Rightarrow> nat" where
  "len d = length (filter (\<lambda>k. d k \<noteq> None) kinds)"

text \<open>\<^verbatim>\<open>for key, value in d.items(): body\<close>, threading the state the body mutates.\<close>

fun for_items :: "(kind \<Rightarrow> rat \<Rightarrow> 's \<Rightarrow> 's) \<Rightarrow> vitals \<Rightarrow> kind list \<Rightarrow> 's \<Rightarrow> 's" where
  "for_items body d [] s = s"
| "for_items body d (key # ks) s =
     (case d key of
        None \<Rightarrow> for_items body d ks s
      | Some value \<Rightarrow> for_items body d ks (body key value s))"

text \<open>\<^verbatim>\<open>VALID_RANGES\<close> of camera-connector-production.py and camera-to-dashboard-ocr.py.\<close>

fun VALID_RANGES :: "kind \<Rightarrow> rat \<times> rat" where
  "VALID_RANGES HR = (80, 200)"
| "VALID_RANGES SPO2 = (85, 100)"
| "VALID_RANGES RR = (20, 80)"
| "VALID_RANGES TEMP = (35, 39)"

text \<open>The range test \<^verbatim>\<open>min_val <= value <= max_val\<close>.\<close>

definition in_range :: "rat \<times> rat \<Rightarrow> rat \<Rightarrow> bool" where
  "in_range r value = (fst r \<le> value \<and> value \<le> snd r)"

section \<open>Temporal smoothing\<close>

text \<open>
  \<^verbatim>\<open>collections.deque(maxlen=n).append(x)\<close>: the element is appended on the right and,
  when the deque then exceeds its bound, the leftmost element is dropped.
\<close>

definition deque_append :: "nat \<Rightarrow> 'a list \<Rightarrow> 'a \<Rightarrow> 'a list" where
  "deque_append maxlen d x = (let d' = d @ [x] in if maxlen < length d' then tl d' else d')"

text \<open>
  The body of the loop in \<^verbatim>\<open>VitalSmoother.smooth\<close> and in \<^verbatim>\<open>apply_smoothing\<close>:
  \<^verbatim>\<open>
      self.history[key].append(value)
      if len(self.history[key]) >= 3:
          values = sorted(self.history[key])
          smoothed[key] = values[len(values) // 2]
      else:
          smoothed[key] = value
  \<close>
  The state of the loop is the pair of the history dictionary and the \<^verbatim>\<open>smoothed\<close>
  dictionary under construction.
\<close>

definition smooth_item ::
  "nat \<Rightarrow> kind \<Rightarrow> rat \<Rightarrow> (kind \<Rightarrow> rat list) \<times> vitals \<Rightarrow> (kind \<Rightarrow> rat list) \<times> vitals" where
  "smooth_item maxlen key value = (\<lambda>(hist, smoothed).
     let h = deque_append maxlen (hist key) value;
         hist' = hist(key := h)
     in if 3 \<le> length h
        then (let values = sort h in (hist', smoothed(key \<mapsto> values ! (length values div 2))))
        else (hist', smoothed(key \<mapsto> value)))"

text \<open>
  \<^verbatim>\<open>class VitalSmoother\<close> of camera-connector-production.py. \<^verbatim>\<open>__init__\<close> creates one
  empty bounded deque per vital kind.
\<close>

record VitalSmoother =
  window_size :: nat
  history :: "kind \<Rightarrow> rat list"

definition VitalSmoother_init :: "nat \<Rightarrow> VitalSmoother" where
  "VitalSmoother_init w = \<lparr>window_size = w, history = (\<lambda>k. [])\<rparr>"

text \<open>\<^verbatim>\<open>VitalSmoother()\<close>: the default \<^verbatim>\<open>window_size=5\<close>, as \<^verbatim>\<open>main\<close> creates it.\<close>

definition VitalSmoother_new :: VitalSmoother where
  "VitalSmoother_new = VitalSmoother_init 5"

definition smooth :: "VitalSmoother \<Rightarrow> vitals \<Rightarrow> VitalSmoother \<times> vitals" where
  "smooth self vitals =
     (let (hist, smoothed) =
            for_items (smooth_item (window_size self)) vitals kinds (history self, Map.empty)
      in (self\<lparr>history := hist\<rparr>, smoothed))"

text \<open>
  camera-to-dashboard-ocr.py keeps the same deques in the module-level dictionary
  \<^verbatim>\<open>vital_history\<close> (\<^verbatim>\<open>maxlen=SMOOTHING_WINDOW\<close>); \<^verbatim>\<open>apply_smoothing\<close> mutates it,
  so the model takes it and returns it.
\<close>

definition SMOOTHING_WINDOW :: nat where
  "SMOOTHING_WINDOW = 5"

definition vital_history_init :: "kind \<Rightarrow> rat list" where
  "vital_history_init = (\<lambda>k. [])"

definition apply_smoothing :: "(kind \<Rightarrow> rat list) \<Rightarrow> vitals \<Rightarrow> (kind \<Rightarrow> rat list) \<times> vitals" where
  "apply_smoothing vital_history new_vitals =
     for_items (smooth_item SMOOTHING_WINDOW) new_vitals kinds (vital_history, Map.empty)"

text \<open>
  A run of the smoother: the dictionaries pushed on successive ticks, in order. Only the
  smoother (respectively \<^verbatim>\<open>vital_history\<close>) survives from one tick to the next.
\<close>

definition smooth_run :: "VitalSmoother \<Rightarrow> vitals list \<Rightarrow> VitalSmoother" where
  "smooth_run self pushes = foldl (\<lambda>s v. fst (smooth s v)) self pushes"

definition apply_smoothing_run :: "(kind \<Rightarrow> rat list) \<Rightarrow> vitals list \<Rightarrow> (kind \<Rightarrow> rat list)" where
  "apply_smoothing_run vital_history pushes =
     foldl (\<lambda>h v. fst (apply_smoothing h v)) vital_history pushes"

text \<open>
  The specification's median: the middle element of the buffer in sorted order (for an
  even count, the upper of the two middle elements; no averaging).
\<close>

definition middle_of_sorted :: "rat list \<Rightarrow> rat" where
  "middle_of_sorted buf = sort buf ! (length buf div 2)"

section \<open>Python values: exceptions, strings and numbers\<close>

text \<open>
  An exception is its class and its message \<^verbatim>\<open>str(e)\<close>. \<open>Other\<close> names any further
  subclass of \<^verbatim>\<open>Exception\<close> (requests' ConnectionError and Timeout, pytesseract's
  TesseractError, cv2.error, ollama's ResponseError, RecursionError, ...).
  \<^verbatim>\<open>KeyboardInterrupt\<close> derives from \<^verbatim>\<open>BaseException\<close> only, so
  \<^verbatim>\<open>except Exception\<close> does not catch it; \<^verbatim>\<open>json.JSONDecodeError\<close> is a
  subclass of \<^verbatim>\<open>ValueError\<close>.
\<close>

datatype exn_class =
    ValueError | TypeError | IndexError | OverflowError | JSONDecodeError
  | Other string | KeyboardInterrupt

datatype exn = Exn exn_class string

fun class_of :: "exn \<Rightarrow> exn_class" where
  "class_of (Exn c msg) = c"

fun str :: "exn \<Rightarrow> string" where
  "str (Exn c msg) = msg"

definition is_Exception :: "exn \<Rightarrow> bool" where
  "is_Exception e = (class_of e \<noteq> KeyboardInterrupt)"

definition is_ValueError :: "exn \<Rightarrow> bool" where
  "is_ValueError e = (class_of e = ValueError \<or> class_of e = JSONDecodeError)"

definition is_TypeError :: "exn \<Rightarrow> bool" where
  "is_TypeError e = (class_of e = TypeError)"

definition is_IndexError :: "exn \<Rightarrow> bool" where
  "is_IndexError e = (class_of e = IndexError)"

definition is_JSONDecodeError :: "exn \<Rightarrow> bool" where
  "is_JSONDecodeError e = (class_of e = JSONDecodeError)"

text \<open>
  Strings are texts of the code points below 256. \<^verbatim>\<open>\s\<close> and \<^verbatim>\<open>str.strip\<close> use
  Python's whitespace characters among them: the space, 0x09 to 0x0D, 0x1C to 0x1F, 0x85
  and 0xA0. \<^verbatim>\<open>str.upper\<close> and the case folding of \<^verbatim>\<open>re.IGNORECASE\<close> act on the 26
  ASCII letters, and \<^verbatim>\<open>\d\<close> is an ASCII digit: the case mapping of the letters from
  0x80 on and the digits and letters beyond 0xFF are not modelled.
\<close>

definition upper_letters :: string where
  "upper_letters = ''ABCDEFGHIJKLMNOPQRSTUVWXYZ''"

definition lower_letters :: string where
  "lower_letters = ''abcdefghijklmnopqrstuvwxyz''"

definition lower_char :: "char \<Rightarrow> char" where
  "lower_char c = (case map_of (zip upper_letters lower_letters) c of Some l \<Rightarrow> l | None \<Rightarrow> c)"

definition upper_char :: "char \<Rightarrow> char" where
  "upper_char c = (case map_of (zip lower_letters upper_letters) c of Some u \<Rightarrow> u | None \<Rightarrow> c)"

definition upper :: "string \<Rightarrow> string" where
  "upper s = map upper_char s"

definition whitespace :: string where
  "whitespace = [CHR '' '', CHR 0x09, CHR 0x0A, CHR 0x0B, CHR 0x0C, CHR 0x0D,
                 CHR 0x1C, CHR 0x1D, CHR 0x1E, CHR 0x1F, CHR 0x85, CHR 0xA0]"

definition is_space :: "char \<Rightarrow> bool" where
  "is_space c = (c \<in> set whitespace)"

definition is_digit :: "char \<Rightarrow> bool" where
  "is_digit c = (c \<in> set ''0123456789'')"

definition strip :: "string \<Rightarrow> string" where
  "strip s = rev (dropWhile is_space (rev (dropWhile is_space s)))"

text \<open>\<^verbatim>\<open>s.replace('\n', ' ')\<close>.\<close>

definition replace_newlines :: "string \<Rightarrow> string" where
  "replace_newlines s = map (\<lambda>c. if c = CHR 0x0A then CHR '' '' else c) s"

definition digit_value :: "char \<Rightarrow> nat" where
  "digit_value c = (case map_of (zip ''0123456789'' [0 ..< 10]) c of Some n \<Rightarrow> n | None \<Rightarrow> 0)"

definition nat_of_digits :: "string \<Rightarrow> nat" where
  "nat_of_digits ds = foldl (\<lambda>n c. 10 * n + digit_value c) 0 ds"

text \<open>
  A Python float is a finite number or one of \<^verbatim>\<open>nan\<close>, \<^verbatim>\<open>inf\<close>, \<^verbatim>\<open>-inf\<close>.
  Finite floats are modelled by the exact rational they are written as: rounding to
  binary64, overflow to infinity and underflow to zero are not modelled. The range bounds
  of the scripts are integers, so a range test on the exact value and on its binary64
  rounding can differ only for a value within half a unit in the last place of a bound.
  Every comparison with a non-finite float against finite bounds is false.
\<close>

datatype pyfloat = Finite rat | NonFinite

fun in_range_float :: "rat \<times> rat \<Rightarrow> pyfloat \<Rightarrow> bool" where
  "in_range_float r (Finite v) = in_range r v"
| "in_range_float r NonFinite = False"

text \<open>
  \<^verbatim>\<open>float(s)\<close> for a string. CPython first turns the whitespace characters from 0x80 on
  into spaces, then removes the underscores, each of which must stand between two digits,
  then strips the surrounding ASCII whitespace (the space and 0x09 to 0x0D only: 0x1C to
  0x1F are whitespace for \<^verbatim>\<open>str.strip\<close> but not here). What is left is an optional sign,
  then \<^verbatim>\<open>inf\<close>, \<^verbatim>\<open>infinity\<close> or \<^verbatim>\<open>nan\<close> in any case, or decimal digits with an optional
  point and an optional exponent; anything else raises \<^verbatim>\<open>ValueError\<close>.
\<close>

definition spaces_to_ascii :: "string \<Rightarrow> string" where
  "spaces_to_ascii s = map (\<lambda>c. if c = CHR 0x85 \<or> c = CHR 0xA0 then CHR '' '' else c) s"

fun underscores_ok :: "char \<Rightarrow> string \<Rightarrow> bool" where
  "underscores_ok prev [] = (prev \<noteq> CHR ''_'')"
| "underscores_ok prev (c # cs) =
     ((if c = CHR ''_'' then is_digit prev
       else if prev = CHR ''_'' then is_digit c else True)
      \<and> underscores_ok c cs)"

definition without_underscores :: "string \<Rightarrow> string option" where
  "without_underscores s =
     (if underscores_ok (CHR 0x00) s then Some (filter (\<lambda>c. c \<noteq> CHR ''_'') s) else None)"

definition is_ascii_space :: "char \<Rightarrow> bool" where
  "is_ascii_space c = (c \<in> set [CHR '' '', CHR 0x09, CHR 0x0A, CHR 0x0B, CHR 0x0C, CHR 0x0D])"

definition strip_ascii :: "string \<Rightarrow> string" where
  "strip_ascii s = rev (dropWhile is_ascii_space (rev (dropWhile is_ascii_space s)))"

definition split_sign :: "string \<Rightarrow> bool \<times> string" where
  "split_sign s =
     (case s of
        [] \<Rightarrow> (False, s)
      | c # cs \<Rightarrow> if c = CHR ''-'' then (True, cs) else if c = CHR ''+'' then (False, cs)
                  else (False, s))"

definition parse_exponent :: "string \<Rightarrow> int option" where
  "parse_exponent s =
     (case s of
        [] \<Rightarrow> Some 0
      | c # cs \<Rightarrow>
          if c = CHR ''e'' \<or> c = CHR ''E''
          then (let (neg, ds) = split_sign cs
                in if ds \<noteq> [] \<and> list_all is_digit ds
                   then Some ((if neg then - 1 else 1) * int (nat_of_digits ds))
                   else None)
          else None)"

definition scale10 :: "rat \<Rightarrow> int \<Rightarrow> rat" where
  "scale10 m e = (if 0 \<le> e then m * 10 ^ nat e else m / 10 ^ nat (- e))"

definition float_error :: "string \<Rightarrow> exn" where
  "float_error s = Exn ValueError (''could not convert string to float: '' @ s)"

definition float_of_stripped :: "string \<Rightarrow> pyfloat option" where
  "float_of_stripped t =
     (let (neg, body) = split_sign t;
          ip = takeWhile is_digit body;
          r1 = dropWhile is_digit body;
          (fp, r2) = (case r1 of
                        [] \<Rightarrow> ([], [])
                      | c # cs \<Rightarrow> if c = CHR ''.''
                                  then (takeWhile is_digit cs, dropWhile is_digit cs)
                                  else ([], r1))
      in if map lower_char body \<in> set [''inf'', ''infinity'', ''nan''] then Some NonFinite
         else if ip = [] \<and> fp = [] then None
         else (case parse_exponent r2 of
                 None \<Rightarrow> None
               | Some ex \<Rightarrow>
                   Some (Finite (scale10 ((if neg then - 1 else 1) * of_nat (nat_of_digits (ip @ fp)))
                                         (ex - int (length fp))))))"

definition py_float :: "string \<Rightarrow> exn + pyfloat" where
  "py_float s =
     (case without_underscores (spaces_to_ascii s) of
        None \<Rightarrow> Inl (float_error s)
      | Some t \<Rightarrow>
          (case float_of_stripped (strip_ascii t) of
             None \<Rightarrow> Inl (float_error s)
           | Some x \<Rightarrow> Inr x))"

text \<open>
  \<^verbatim>\<open>int(x)\<close> truncates towards zero. \<^verbatim>\<open>round(x, 1)\<close> rounds to one decimal, a tie
  going to the even neighbour. The model rounds the exact rational; Python rounds the
  binary64 value nearest to it, which lies on a tie only when it is an odd multiple of
  0.25 written exactly. So the two agree except on a decimal tie that binary64 cannot
  hold: 36.85 is stored slightly above the tie and Python gives 36.9 where \<open>round1\<close>
  gives 36.8. No theorem below depends on the side to which such a tie is rounded.
\<close>

definition py_int :: "rat \<Rightarrow> int" where
  "py_int x = (if 0 \<le> x then \<lfloor>x\<rfloor> else \<lceil>x\<rceil>)"

definition round_half_even :: "rat \<Rightarrow> int" where
  "round_half_even x =
     (let f = \<lfloor>x\<rfloor>; d = x - of_int f
      in if d < 1 / 2 then f else if 1 / 2 < d then f + 1 else if even f then f else f + 1)"

definition round1 :: "rat \<Rightarrow> rat" where
  "round1 x = of_int (round_half_even (x * 10)) / 10"

section \<open>Regular expressions\<close>

text \<open>
  The fragment of Python's \<^verbatim>\<open>re\<close> that the scripts' patterns use. A character class is
  a set of characters (\<^verbatim>\<open>[0-8]\<close> is written \<open>OneOf ''012345678''\<close>, a literal \<^verbatim>\<open>x\<close>
  is \<open>OneOf ''x''\<close>), \<^verbatim>\<open>\d\<close>, \<^verbatim>\<open>\s\<close> or a union (\<^verbatim>\<open>[:\s]\<close>). Every quantifier of
  the patterns applies to one character class and is greedy: \<open>Rep c m n\<close> is
  \<^verbatim>\<open>c{m,n}\<close>, with \<open>None\<close> for no upper bound. \<open>NotBehind\<close> and \<open>NotAhead\<close> are the
  one-character negative lookarounds \<^verbatim>\<open>(?<!c)\<close> and \<^verbatim>\<open>(?!c)\<close>.
\<close>

datatype cclass = OneOf string | NoneOf string | Digit | Space | Union cclass cclass

text \<open>The flag \<open>ic\<close> is \<^verbatim>\<open>re.IGNORECASE\<close>.\<close>

fun cc :: "bool \<Rightarrow> cclass \<Rightarrow> char \<Rightarrow> bool" where
  "cc ic (OneOf s) c = (if ic then lower_char c \<in> set (map lower_char s) else c \<in> set s)"
| "cc ic (NoneOf s) c = (if ic then lower_char c \<notin> set (map lower_char s) else c \<notin> set s)"
| "cc ic Digit c = is_digit c"
| "cc ic Space c = is_space c"
| "cc ic (Union a b) c = (cc ic a c \<or> cc ic b c)"

datatype regex =
    Eps
  | Chr cclass
  | Rep cclass nat "nat option"
  | Cat regex regex
  | Alt regex regex
  | NotBehind cclass
  | NotAhead cclass

text \<open>
  A backtracking matcher. A position is the character before it (for the lookbehind) and
  the rest of the text. \<open>rx_match\<close> lists the positions at which a match of the
  expression starting at the given position can end, in the order in which Python's
  matcher tries them: the longest repetition first, the left alternative first.
\<close>

fun rx_match :: "bool \<Rightarrow> regex \<Rightarrow> char option \<times> string \<Rightarrow> (char option \<times> string) list" where
  "rx_match ic Eps st = [st]"
| "rx_match ic (Chr c) (p, s) =
     (case s of [] \<Rightarrow> [] | x # xs \<Rightarrow> if cc ic c x then [(Some x, xs)] else [])"
| "rx_match ic (Rep c lo hi) (p, s) =
     (let n = length (takeWhile (cc ic c) s);
          m = (case hi of None \<Rightarrow> n | Some h \<Rightarrow> min n h)
      in map (\<lambda>j. (if j = 0 then p else Some (s ! (j - 1)), drop j s)) (rev [lo ..< Suc m]))"
| "rx_match ic (Cat a b) st = concat (map (rx_match ic b) (rx_match ic a st))"
| "rx_match ic (Alt a b) st = rx_match ic a st @ rx_match ic b st"
| "rx_match ic (NotBehind c) (p, s) =
     (case p of None \<Rightarrow> [(p, s)] | Some x \<Rightarrow> if cc ic c x then [] else [(p, s)])"
| "rx_match ic (NotAhead c) (p, s) =
     (case s of [] \<Rightarrow> [(p, s)] | x # xs \<Rightarrow> if cc ic c x then [] else [(p, s)])"

text \<open>
  Every pattern of the scripts has one capturing group, at top level:
  \<open>Pattern pre grp post\<close> is \<^verbatim>\<open>pre(grp)post\<close>. \<open>match_here\<close> is the text captured by
  the group in the first way the whole pattern matches at a position.
\<close>

datatype pattern = Pattern regex regex regex

fun match_here :: "bool \<Rightarrow> pattern \<Rightarrow> char option \<times> string \<Rightarrow> string option" where
  "match_here ic (Pattern pre grp post) st =
     (case concat (map (\<lambda>st1. concat (map (\<lambda>st2. map (\<lambda>st3. take (length (snd st1) - length (snd st2)) (snd st1))
                                                         (rx_match ic post st2))
                                          (rx_match ic grp st1)))
                       (rx_match ic pre st)) of
        [] \<Rightarrow> None
      | g # gs \<Rightarrow> Some g)"

text \<open>
  \<^verbatim>\<open>re.search\<close> tries the start positions from left to right; the result is
  \<^verbatim>\<open>match.group(1)\<close> of the first match, or \<open>None\<close> when there is no match.
\<close>

fun search_from :: "bool \<Rightarrow> pattern \<Rightarrow> char option \<Rightarrow> string \<Rightarrow> string option" where
  "search_from ic pat p s =
     (case match_here ic pat (p, s) of
        Some g \<Rightarrow> Some g
      | None \<Rightarrow> (case s of [] \<Rightarrow> None | x # xs \<Rightarrow> search_from ic pat (Some x) xs))"

definition re_search :: "pattern \<Rightarrow> string \<Rightarrow> bool \<Rightarrow> string option" where
  "re_search pat text ic = search_from ic pat None text"

definition lit :: "string \<Rightarrow> regex" where
  "lit s = foldr (\<lambda>c r. Cat (Chr (OneOf [c])) r) s Eps"

definition seq :: "regex list \<Rightarrow> regex" where
  "seq rs = foldr Cat rs Eps"

text \<open>\<^verbatim>\<open>[:\s]*\<close>, \<^verbatim>\<open>[\s]*\<close>, \<^verbatim>\<open>\d{m,n}\<close> and \<^verbatim>\<open>\d\<close>.\<close>

definition sep :: regex where
  "sep = Rep (Union (OneOf '':'') Space) 0 None"

definition spaces :: regex where
  "spaces = Rep Space 0 None"

definition digits :: "nat \<Rightarrow> nat \<Rightarrow> regex" where
  "digits m n = Rep Digit m (Some n)"

definition digit :: regex where
  "digit = Chr Digit"

definition chr_in :: "string \<Rightarrow> regex" where
  "chr_in s = Chr (OneOf s)"

text \<open>\<^verbatim>\<open>\d{2}\.?\d?\<close> and \<^verbatim>\<open>3[5-8]\.\d\<close>, the temperature groups.\<close>

definition temp_loose :: regex where
  "temp_loose = seq [digits 2 2, Rep (OneOf ''.'') 0 (Some 1), Rep Digit 0 (Some 1)]"

definition temp_strict :: regex where
  "temp_strict = seq [lit ''3'', chr_in ''5678'', lit ''.'', digit]"

text \<open>
  \<^verbatim>\<open>PATTERNS\<close> of camera-connector-production.py:
  \<^verbatim>\<open>
  'hr':   [r'HR[:\s]*(\d{2,3})', r'(\d{2,3})[\s]*bpm', r'(1[0-8]\d)'],
  'spo2': [r'SpO2[:\s]*(\d{2,3})', r'(\d{2,3})[\s]*%', r'(9[0-9]|100)'],
  'rr':   [r'RR[:\s]*(\d{1,3})', r'([3-7]\d)'],
  'temp': [r'Temp[:\s]*(\d{2}\.?\d?)', r'(3[5-8]\.\d)']
  \<close>
\<close>

fun PATTERNS :: "kind \<Rightarrow> pattern list" where
  "PATTERNS HR =
     [Pattern (Cat (lit ''HR'') sep) (digits 2 3) Eps,
      Pattern Eps (digits 2 3) (Cat spaces (lit ''bpm'')),
      Pattern Eps (seq [lit ''1'', chr_in ''012345678'', digit]) Eps]"
| "PATTERNS SPO2 =
     [Pattern (Cat (lit ''SpO2'') sep) (digits 2 3) Eps,
      Pattern Eps (digits 2 3) (Cat spaces (lit ''%'')),
      Pattern Eps (Alt (seq [lit ''9'', chr_in ''0123456789'']) (lit ''100'')) Eps]"
| "PATTERNS RR =
     [Pattern (Cat (lit ''RR'') sep) (digits 1 3) Eps,
      Pattern Eps (seq [chr_in ''34567'', digit]) Eps]"
| "PATTERNS TEMP =
     [Pattern (Cat (lit ''Temp'') sep) temp_loose Eps,
      Pattern Eps temp_strict Eps]"

text \<open>
  \<^verbatim>\<open>PATTERNS\<close> of camera-to-dashboard-ocr.py:
  \<^verbatim>\<open>
  'hr':   [r'HR[:\s]*(\d{2,3})', r'(?:Heart|Pulse)[:\s]*(\d{2,3})',
           r'(?<!\d)(\d{2,3})[\s]*bpm', r'(?<!\d)(1[0-2]\d|1[3-8]\d)(?!\d)'],
  'spo2': [r'SpO2[:\s]*(\d{2,3})', r'(?:SAT|O2)[:\s]*(\d{2,3})',
           r'(\d{2,3})[\s]*%', r'(?<!\d)(9[0-9]|100)(?!\d)'],
  'rr':   [r'RR[:\s]*(\d{1,3})', r'(?:Resp|RESP)[:\s]*(\d{1,3})', r'(?<!\d)([3-7]\d)(?!\d)'],
  'temp': [r'(?:Temp|TEMP)[:\s]*(\d{2}\.?\d?)', r'(\d{2}\.\d)[\s]*[(degree sign)C]',
           r'(3[5-8]\.\d)']
  \<close>
  The degree sign is the character 0xB0.
\<close>

fun PATTERNS_ocr :: "kind \<Rightarrow> pattern list" where
  "PATTERNS_ocr HR =
     [Pattern (Cat (lit ''HR'') sep) (digits 2 3) Eps,
      Pattern (Cat (Alt (lit ''Heart'') (lit ''Pulse'')) sep) (digits 2 3) Eps,
      Pattern (NotBehind Digit) (digits 2 3) (Cat spaces (lit ''bpm'')),
      Pattern (NotBehind Digit)
        (Alt (seq [lit ''1'', chr_in ''012'', digit]) (seq [lit ''1'', chr_in ''345678'', digit]))
        (NotAhead Digit)]"
| "PATTERNS_ocr SPO2 =
     [Pattern (Cat (lit ''SpO2'') sep) (digits 2 3) Eps,
      Pattern (Cat (Alt (lit ''SAT'') (lit ''O2'')) sep) (digits 2 3) Eps,
      Pattern Eps (digits 2 3) (Cat spaces (lit ''%'')),
      Pattern (NotBehind Digit) (Alt (seq [lit ''9'', chr_in ''0123456789'']) (lit ''100''))
        (NotAhead Digit)]"
| "PATTERNS_ocr RR =
     [Pattern (Cat (lit ''RR'') sep) (digits 1 3) Eps,
      Pattern (Cat (Alt (lit ''Resp'') (lit ''RESP'')) sep) (digits 1 3) Eps,
      Pattern (NotBehind Digit) (seq [chr_in ''34567'', digit]) (NotAhead Digit)]"
| "PATTERNS_ocr TEMP =
     [Pattern (Cat (Alt (lit ''Temp'') (lit ''TEMP'')) sep) temp_loose Eps,
      Pattern Eps (seq [digits 2 2, lit ''.'', digit]) (Cat spaces (Chr (OneOf [CHR 0xB0, CHR ''C'']))),
      Pattern Eps temp_strict Eps]"

section \<open>Extraction from OCR text\<close>

text \<open>
  The inner loop of \<^verbatim>\<open>extract_vitals\<close> and \<^verbatim>\<open>extract_vitals_from_text\<close> for one
  vital kind:
  \<^verbatim>\<open>
      for pattern in patterns:
          match = re.search(pattern, text, re.IGNORECASE)
          if match:
              try:
                  value = float(match.group(1))
                  min_val, max_val = VALID_RANGES[vital_type]
                  if min_val <= value <= max_val:
                      vitals[vital_type] = value
                      break
              except (ValueError, IndexError):
                  continue
  \<close>
  The result is the value stored for the kind, if any. \<^verbatim>\<open>float\<close> of a string raises
  \<^verbatim>\<open>ValueError\<close> only, which the handler catches.
\<close>

fun try_patterns :: "rat \<times> rat \<Rightarrow> pattern list \<Rightarrow> string \<Rightarrow> rat option" where
  "try_patterns r [] text = None"
| "try_patterns r (pattern # patterns) text =
     (case re_search pattern text True of
        None \<Rightarrow> try_patterns r patterns text
      | Some g \<Rightarrow>
          (case py_float g of
             Inl e \<Rightarrow> try_patterns r patterns text
           | Inr NonFinite \<Rightarrow> try_patterns r patterns text
           | Inr (Finite v) \<Rightarrow> if in_range r v then Some v else try_patterns r patterns text))"

text \<open>The outer loop \<^verbatim>\<open>for vital_type, patterns in PATTERNS.items()\<close>.\<close>

definition extract_from_text :: "(kind \<Rightarrow> pattern list) \<Rightarrow> string \<Rightarrow> vitals" where
  "extract_from_text pats text =
     fold (\<lambda>vital_type vitals.
             case try_patterns (VALID_RANGES vital_type) (pats vital_type) text of
               None \<Rightarrow> vitals
             | Some v \<Rightarrow> vitals(vital_type \<mapsto> v))
          kinds Map.empty"

text \<open>
  \<^verbatim>\<open>extract_vitals(frame)\<close> of camera-connector-production.py. OpenCV and tesseract are
  outside the repository: a frame is represented by what \<^verbatim>\<open>preprocess_for_ocr\<close> and
  \<^verbatim>\<open>pytesseract.image_to_string\<close> do on it, which is to return a text or to raise.
  The function returns \<^verbatim>\<open>(vitals, confidence, text[:50])\<close>; its handler is
  \<^verbatim>\<open>except Exception as e: return {}, 0.0, str(e)[:50]\<close>. A result \<open>Inl e\<close> is an
  exception that leaves the function.
\<close>

type_synonym frame = "exn + string"

definition extract_vitals :: "frame \<Rightarrow> exn + (vitals \<times> rat \<times> string)" where
  "extract_vitals frame =
     (case frame of
        Inl e \<Rightarrow> if is_Exception e then Inr (Map.empty, 0, take 50 (str e)) else Inl e
      | Inr ocr_text \<Rightarrow>
          (let text = replace_newlines (upper ocr_text);
               vitals = extract_from_text PATTERNS text
           in Inr (vitals, if 2 \<le> len vitals then 88 / 100 else 0, take 50 text)))"

text \<open>
  camera-to-dashboard-ocr.py: \<^verbatim>\<open>extract_vitals_from_text\<close> returns the values and a
  dictionary of per-vital confidence scores (0.85 for every value found).
\<close>

definition extract_vitals_from_text :: "string \<Rightarrow> vitals \<times> (kind \<rightharpoonup> rat)" where
  "extract_vitals_from_text text0 =
     (let text = replace_newlines (upper text0);
          vitals = extract_from_text PATTERNS_ocr text;
          confidence_scores = (\<lambda>k. case vitals k of None \<Rightarrow> None | Some v \<Rightarrow> Some (85 / 100))
      in (vitals, confidence_scores))"

text \<open>
  \<^verbatim>\<open>extract_vitals_ocr(frame)\<close> runs tesseract on the preprocessed frame and on an
  inverted threshold of it; the frame is represented by the two texts, or by the exception
  raised on the way. The handler is
  \<^verbatim>\<open>except Exception as e: return {}, {}, f"OCR Error: {str(e)}"\<close>.
\<close>

type_synonym frame_ocr = "exn + string \<times> string"

definition extract_vitals_ocr :: "frame_ocr \<Rightarrow> exn + (vitals \<times> (kind \<rightharpoonup> rat) \<times> string)" where
  "extract_vitals_ocr frame =
     (case frame of
        Inl e \<Rightarrow> if is_Exception e then Inr (Map.empty, Map.empty, ''OCR Error: '' @ str e)
                 else Inl e
      | Inr (text, text_inv) \<Rightarrow>
          (let combined_text = text @ '' '' @ text_inv;
               (vitals, confidence) = extract_vitals_from_text combined_text
           in Inr (vitals, confidence, take 100 (strip combined_text))))"

section \<open>Extraction with the vision-language model\<close>

text \<open>
  vlm-vitals-extractor.py works on six keys and has its own ranges. Its dictionaries hold
  \<^verbatim>\<open>None\<close> for a key without value, so a dictionary maps a key to an optional value.
\<close>

datatype vlm_key = Vital kind | BP_SYS | BP_DIA

definition vlm_keys :: "vlm_key list" where
  "vlm_keys = [Vital HR, Vital SPO2, Vital RR, Vital TEMP, BP_SYS, BP_DIA]"

fun VALID_RANGES_vlm :: "vlm_key \<Rightarrow> rat \<times> rat" where
  "VALID_RANGES_vlm (Vital HR) = (60, 220)"
| "VALID_RANGES_vlm (Vital SPO2) = (70, 100)"
| "VALID_RANGES_vlm (Vital RR) = (15, 100)"
| "VALID_RANGES_vlm (Vital TEMP) = (34, 40)"
| "VALID_RANGES_vlm BP_SYS = (40, 120)"
| "VALID_RANGES_vlm BP_DIA = (20, 80)"

type_synonym vlm_vitals = "vlm_key \<rightharpoonup> rat option"

text \<open>The initial \<^verbatim>\<open>vitals = {'hr': None, ..., 'bp_dia': None}\<close>.\<close>

definition vitals_none :: vlm_vitals where
  "vitals_none = (\<lambda>k. Some None)"

text \<open>A JSON value as \<^verbatim>\<open>json.loads\<close> returns it; arrays and objects are not looked into.\<close>

datatype json = JNull | JBool bool | JInt int | JFloat pyfloat | JStr string | JArray | JObject

text \<open>
  \<^verbatim>\<open>float(x)\<close> of a JSON value. An integer at or beyond \<open>2^1024 - 2^970\<close> in magnitude
  rounds out of the binary64 range and raises \<^verbatim>\<open>OverflowError\<close>; a list or a
  dictionary raises \<^verbatim>\<open>TypeError\<close>.
\<close>

fun float_of_json :: "json \<Rightarrow> exn + pyfloat" where
  "float_of_json JNull = Inl (Exn TypeError ''float() argument must be a string or a real number'')"
| "float_of_json (JBool b) = Inr (Finite (if b then 1 else 0))"
| "float_of_json (JInt i) =
     (if 2 ^ 1024 - 2 ^ 970 \<le> \<bar>i\<bar> then Inl (Exn OverflowError ''int too large to convert to float'')
      else Inr (Finite (of_int i)))"
| "float_of_json (JFloat f) = Inr f"
| "float_of_json (JStr s) = py_float s"
| "float_of_json JArray = Inl (Exn TypeError ''float() argument must be a string or a real number'')"
| "float_of_json JObject = Inl (Exn TypeError ''float() argument must be a string or a real number'')"

text \<open>
  The body of the loop over the parsed object:
  \<^verbatim>\<open>
      if key in data and data[key] is not None:
          try:
              value = float(data[key])
              if key in VALID_RANGES:
                  min_val, max_val = VALID_RANGES[key]
                  if min_val <= value <= max_val:
                      vitals[key] = value
          except (ValueError, TypeError):
              pass
  \<close>
  All six keys are keys of \<^verbatim>\<open>VALID_RANGES\<close>.
\<close>

definition parse_json_item :: "(vlm_key \<rightharpoonup> json) \<Rightarrow> vlm_key \<Rightarrow> vlm_vitals \<Rightarrow> exn + vlm_vitals" where
  "parse_json_item data key vitals =
     (case data key of
        None \<Rightarrow> Inr vitals
      | Some JNull \<Rightarrow> Inr vitals
      | Some x \<Rightarrow>
          (case float_of_json x of
             Inl e \<Rightarrow> if is_ValueError e \<or> is_TypeError e then Inr vitals else Inl e
           | Inr NonFinite \<Rightarrow> Inr vitals
           | Inr (Finite v) \<Rightarrow>
               if in_range (VALID_RANGES_vlm key) v then Inr (vitals(key \<mapsto> Some v))
               else Inr vitals))"

fun parse_json_items :: "(vlm_key \<rightharpoonup> json) \<Rightarrow> vlm_key list \<Rightarrow> vlm_vitals \<Rightarrow> exn + vlm_vitals" where
  "parse_json_items data [] vitals = Inr vitals"
| "parse_json_items data (key # keys) vitals =
     (case parse_json_item data key vitals of
        Inl e \<Rightarrow> Inl e
      | Inr vitals' \<Rightarrow> parse_json_items data keys vitals')"

text \<open>
  The fallback patterns, searched in the response with \<^verbatim>\<open>re.IGNORECASE\<close>:
  \<^verbatim>\<open>
  'hr':   r'(?:hr|heart\s*rate)[:\s]*(\d{2,3})',
  'spo2': r'(?:spo2|oxygen|sat)[:\s]*(\d{2,3})',
  'rr':   r'(?:rr|resp)[:\s]*(\d{1,3})',
  'temp': r'(?:temp)[:\s]*(\d{2}\.?\d?)'
  \<close>
\<close>

fun fallback_pattern :: "kind \<Rightarrow> pattern" where
  "fallback_pattern HR =
     Pattern (Cat (Alt (lit ''hr'') (seq [lit ''heart'', spaces, lit ''rate''])) sep) (digits 2 3) Eps"
| "fallback_pattern SPO2 =
     Pattern (Cat (Alt (lit ''spo2'') (Alt (lit ''oxygen'') (lit ''sat''))) sep) (digits 2 3) Eps"
| "fallback_pattern RR =
     Pattern (Cat (Alt (lit ''rr'') (lit ''resp'')) sep) (digits 1 3) Eps"
| "fallback_pattern TEMP =
     Pattern (Cat (lit ''temp'') sep) temp_loose Eps"

definition parse_fallback_item :: "string \<Rightarrow> kind \<Rightarrow> vlm_vitals \<Rightarrow> vlm_vitals" where
  "parse_fallback_item response_text key vitals =
     (case re_search (fallback_pattern key) response_text True of
        None \<Rightarrow> vitals
      | Some g \<Rightarrow>
          (case py_float g of
             Inl e \<Rightarrow> vitals
           | Inr NonFinite \<Rightarrow> vitals
           | Inr (Finite v) \<Rightarrow>
               if in_range (VALID_RANGES_vlm (Vital key)) v then vitals(Vital key \<mapsto> Some v)
               else vitals))"

text \<open>\<^verbatim>\<open>re.search(r'\{[^{}]*\}', response_text, re.DOTALL)\<close>; the group is the whole match.\<close>

definition json_object :: pattern where
  "json_object = Pattern Eps (seq [lit ''{'', Rep (NoneOf ''{}'') 0 None, lit ''}'']) Eps"

text \<open>
  \<^verbatim>\<open>parse_vitals_response(response_text)\<close>. \<^verbatim>\<open>json.loads\<close> is outside the repository
  and is a parameter: it returns the parsed object, of which only the six keys are looked
  up, or raises. The handler \<^verbatim>\<open>except json.JSONDecodeError\<close> around the whole body runs
  the fallback patterns; any other exception leaves the function.
\<close>

definition parse_vitals_response ::
  "(string \<Rightarrow> exn + (vlm_key \<rightharpoonup> json)) \<Rightarrow> string \<Rightarrow> exn + vlm_vitals" where
  "parse_vitals_response json_loads response_text =
     (case re_search json_object response_text False of
        None \<Rightarrow> Inr vitals_none
      | Some json_match \<Rightarrow>
          (case (case json_loads json_match of
                   Inl e \<Rightarrow> Inl e
                 | Inr data \<Rightarrow> parse_json_items data vlm_keys vitals_none) of
             Inr vitals \<Rightarrow> Inr vitals
           | Inl e \<Rightarrow>
               if is_JSONDecodeError e
               then Inr (fold (parse_fallback_item response_text) kinds vitals_none)
               else Inl e))"

text \<open>
  \<^verbatim>\<open>extract_vitals_vlm(frame)\<close>. The frame is represented by what the model call does on
  it (the response text, or the exception raised by the encoding or by \<^verbatim>\<open>ollama.chat\<close>)
  and by the measured inference time. The result is
  \<^verbatim>\<open>(vitals, confidence, inference_time, response_text)\<close> with
  \<^verbatim>\<open>confidence = min(0.95, 0.5 + valid_count * 0.1)\<close>; the handler is
  \<^verbatim>\<open>except Exception as e: return {}, 0.0, 0, f"VLM Error: {str(e)}"\<close>.
\<close>

record vlm_frame =
  chat :: "exn + string"
  elapsed_ms :: rat

definition valid_count :: "vlm_vitals \<Rightarrow> nat" where
  "valid_count vitals =
     length (filter (\<lambda>k. case vitals k of Some (Some v) \<Rightarrow> True | _ \<Rightarrow> False) vlm_keys)"

definition extract_vitals_vlm ::
  "(string \<Rightarrow> exn + (vlm_key \<rightharpoonup> json)) \<Rightarrow> vlm_frame \<Rightarrow> exn + (vlm_vitals \<times> rat \<times> rat \<times> string)" where
  "extract_vitals_vlm json_loads frame =
     (case (case chat frame of
              Inl e \<Rightarrow> Inl e
            | Inr response_text \<Rightarrow>
                (case parse_vitals_response json_loads response_text of
                   Inl e \<Rightarrow> Inl e
                 | Inr vitals \<Rightarrow>
                     Inr (vitals, min (95 / 100) (1 / 2 + of_nat (valid_count vitals) * (1 / 10)),
                          elapsed_ms frame, response_text))) of
        Inr result \<Rightarrow> Inr result
      | Inl e \<Rightarrow> if is_Exception e then Inr (Map.empty, 0, 0, ''VLM Error: '' @ str e) else Inl e)"

section \<open>Submission\<close>

text \<open>
  The body of the HTTP POST, as far as the scripts compute it from the reading: the
  \<^verbatim>\<open>vitals\<close> object, the confidence and the metadata, with the two fixed identifiers.
  (\<^verbatim>\<open>inferenceTimeMs\<close> and \<^verbatim>\<open>timestamp\<close> come from the clock and the random
  generator and are left out, as are the stream statistics of the metadata.) A key of the
  \<^verbatim>\<open>vitals\<close> object may be absent, or present with a JSON value, \<open>JNull\<close> included.
\<close>

record payload =
  patientId :: int
  cameraId :: string
  p_vitals :: "kind \<rightharpoonup> json"
  p_confidence :: rat
  p_metadata :: "(string \<times> json) list"

text \<open>A dictionary result: the server's JSON answer, or \<^verbatim>\<open>{"error": str(e)}\<close>.\<close>

type_synonym result = "(string \<times> json) list"

text \<open>
  The network: the requests posted so far, oldest first, and what the \<open>n\<close>-th call of
  \<^verbatim>\<open>requests.post(...)\<close> followed by \<^verbatim>\<open>response.json()\<close> does: it returns the
  decoded answer or raises (connection error, timeout, undecodable body).
\<close>

record http =
  requests :: "payload list"
  respond :: "nat \<Rightarrow> exn + result"

definition requests_post :: "http \<Rightarrow> payload \<Rightarrow> (exn + result) \<times> http" where
  "requests_post h p = (respond h (length (requests h)), h\<lparr>requests := requests h @ [p]\<rparr>)"

text \<open>
  The \<^verbatim>\<open>try\<close> block that ends every \<^verbatim>\<open>send_vitals\<close>:
  \<^verbatim>\<open>
      try:
          response = requests.post(API_URL, json=payload, timeout=5)
          return response.json()
      except Exception as e:
          return {"error": str(e)}
  \<close>
\<close>

definition post_payload :: "http \<Rightarrow> payload \<Rightarrow> (exn + result) \<times> http" where
  "post_payload h p =
     (let (outcome, h') = requests_post h p
      in (case outcome of
            Inr answer \<Rightarrow> Inr answer
          | Inl e \<Rightarrow> if is_Exception e then Inr [(''error'', JStr (str e))] else Inl e,
          h'))"

text \<open>
  The \<^verbatim>\<open>vitals\<close> object of camera-connector-production.py and
  camera-to-dashboard-ocr.py:
  \<^verbatim>\<open>
      "hr": int(vitals.get('hr')) if vitals.get('hr') else None,
      "spo2": int(vitals.get('spo2')) if vitals.get('spo2') else None,
      "rr": int(vitals.get('rr')) if vitals.get('rr') else None,
      "temp": round(vitals.get('temp'), 1) if vitals.get('temp') else None
  \<close>
  followed by
  \<^verbatim>\<open>payload["vitals"] = {k: v for k, v in payload["vitals"].items() if v is not None}\<close>.
  A number is false when it is zero.
\<close>

fun payload_entry :: "kind \<Rightarrow> rat \<Rightarrow> json" where
  "payload_entry TEMP v = JFloat (Finite (round1 v))"
| "payload_entry k v = JInt (py_int v)"

definition unpruned_vitals :: "(kind \<Rightarrow> rat option) \<Rightarrow> kind \<Rightarrow> json" where
  "unpruned_vitals get k =
     (case get k of
        None \<Rightarrow> JNull
      | Some v \<Rightarrow> if v \<noteq> 0 then payload_entry k v else JNull)"

definition prune :: "(kind \<Rightarrow> json) \<Rightarrow> (kind \<rightharpoonup> json)" where
  "prune d = (\<lambda>k. if d k = JNull then None else Some (d k))"

definition PATIENT_ID :: int where
  "PATIENT_ID = 1"

text \<open>\<^verbatim>\<open>send_vitals(vitals, confidence, metadata)\<close> of camera-connector-production.py.\<close>

definition send_vitals ::
  "http \<Rightarrow> vitals \<Rightarrow> rat \<Rightarrow> (string \<times> json) list \<Rightarrow> (exn + result) \<times> http" where
  "send_vitals h vitals confidence metadata =
     post_payload h
       \<lparr>patientId = PATIENT_ID, cameraId = ''camera-001'',
        p_vitals = prune (unpruned_vitals vitals),
        p_confidence = confidence, p_metadata = metadata\<rparr>"

text \<open>\<^verbatim>\<open>send_vitals(vitals, confidence, ocr_text)\<close> of camera-to-dashboard-ocr.py.\<close>

definition send_vitals_ocr ::
  "http \<Rightarrow> vitals \<Rightarrow> rat \<Rightarrow> string \<Rightarrow> (exn + result) \<times> http" where
  "send_vitals_ocr h vitals confidence ocr_text =
     post_payload h
       \<lparr>patientId = PATIENT_ID, cameraId = ''camera-001'',
        p_vitals = prune (unpruned_vitals vitals),
        p_confidence = confidence,
        p_metadata = [(''ocrText'', JStr (take 200 ocr_text)),
                      (''source'', JStr ''mac-ocr-processor'')]\<rparr>"

text \<open>
  \<^verbatim>\<open>send_vitals(vitals, confidence)\<close> of camera-to-dashboard.py puts the dictionary it
  is given into the body as it is: a \<^verbatim>\<open>None\<close> in it would be sent as \<^verbatim>\<open>null\<close>.
\<close>

fun json_of :: "rat option \<Rightarrow> json" where
  "json_of None = JNull"
| "json_of (Some v) = JFloat (Finite v)"

definition send_vitals_mock ::
  "http \<Rightarrow> (kind \<rightharpoonup> rat option) \<Rightarrow> rat \<Rightarrow> (exn + result) \<times> http" where
  "send_vitals_mock h vitals confidence =
     post_payload h
       \<lparr>patientId = PATIENT_ID, cameraId = ''camera-001'',
        p_vitals = (\<lambda>k. case vitals k of None \<Rightarrow> None | Some x \<Rightarrow> Some (json_of x)),
        p_confidence = confidence, p_metadata = []\<rparr>"

text \<open>
  \<^verbatim>\<open>send_vitals(vitals, confidence, inference_time, vlm_response)\<close> of
  vlm-vitals-extractor.py: the same pruning on the four vital keys (\<^verbatim>\<open>vitals.get\<close>
  is \<^verbatim>\<open>None\<close> for an absent key and for a key holding \<^verbatim>\<open>None\<close>), the blood
  pressures in the metadata, and no request at all when nothing is left:
  \<^verbatim>\<open>
      if not payload["vitals"]:
          return {"error": "No vitals extracted"}
  \<close>
\<close>

definition dict_get :: "('k \<rightharpoonup> 'v option) \<Rightarrow> 'k \<Rightarrow> 'v option" where
  "dict_get d k = (case d k of None \<Rightarrow> None | Some x \<Rightarrow> x)"

definition send_vitals_vlm ::
  "http \<Rightarrow> vlm_vitals \<Rightarrow> rat \<Rightarrow> rat \<Rightarrow> string \<Rightarrow> (exn + result) \<times> http" where
  "send_vitals_vlm h vitals confidence inference_time vlm_response =
     (let pruned = prune (unpruned_vitals (\<lambda>k. dict_get vitals (Vital k)))
      in if list_all (\<lambda>k. pruned k = None) kinds
         then (Inr [(''error'', JStr ''No vitals extracted'')], h)
         else post_payload h
                \<lparr>patientId = PATIENT_ID, cameraId = ''camera-vlm-001'',
                 p_vitals = pruned,
                 p_confidence = confidence,
                 p_metadata = [(''source'', JStr ''moondream-vlm''),
                               (''vlm_response'', JStr (take 500 vlm_response)),
                               (''bp_sys'', json_of (dict_get vitals BP_SYS)),
                               (''bp_dia'', json_of (dict_get vitals BP_DIA))]\<rparr>)"

section \<open>Simulated readings\<close>

text \<open>
  The values the random generator returns during one tick. \<^verbatim>\<open>random.randint(a, b)\<close>
  and \<^verbatim>\<open>random.uniform(a, b)\<close> return a value between \<open>a\<close> and \<open>b\<close> inclusive.
  The fields are the offsets drawn for the heart rate, the oxygen saturation, the
  respiratory rate and the temperature, and the one drawn for the confidence.
\<close>

record draws =
  d_hr :: int
  d_spo2 :: int
  d_rr :: int
  d_temp :: rat
  d_conf :: rat

text \<open>
  \<^verbatim>\<open>generate_simulation_vitals()\<close> of camera-connector-production.py and
  camera-to-dashboard-ocr.py:
  \<^verbatim>\<open>
      'hr': 140 + random.randint(-15, 15),
      'spo2': min(100, max(88, 96 + random.randint(-4, 3))),
      'rr': 45 + random.randint(-8, 8),
      'temp': round(36.8 + random.uniform(-0.4, 0.4), 1)
  \<close>
  and the ranges of its draws, with \<^verbatim>\<open>random.uniform(0, 0.10)\<close> for the confidence.
\<close>

definition generate_simulation_vitals :: "draws \<Rightarrow> vitals" where
  "generate_simulation_vitals r =
     [HR \<mapsto> of_int (140 + d_hr r),
      SPO2 \<mapsto> of_int (min 100 (max 88 (96 + d_spo2 r))),
      RR \<mapsto> of_int (45 + d_rr r),
      TEMP \<mapsto> round1 (368 / 10 + d_temp r)]"

definition simulation_draws :: "draws \<Rightarrow> bool" where
  "simulation_draws r =
     (- 15 \<le> d_hr r \<and> d_hr r \<le> 15 \<and> - 4 \<le> d_spo2 r \<and> d_spo2 r \<le> 3
      \<and> - 8 \<le> d_rr r \<and> d_rr r \<le> 8 \<and> - (4 / 10) \<le> d_temp r \<and> d_temp r \<le> 4 / 10
      \<and> 0 \<le> d_conf r \<and> d_conf r \<le> 10 / 100)"

text \<open>
  \<^verbatim>\<open>generate_mock_vitals()\<close> of camera-to-dashboard.py (offsets from
  \<^verbatim>\<open>randint(-10, 10)\<close>, \<^verbatim>\<open>randint(-3, 2)\<close>, \<^verbatim>\<open>randint(-5, 5)\<close>,
  \<^verbatim>\<open>uniform(-0.3, 0.3)\<close>, and \<^verbatim>\<open>uniform(0, 0.12)\<close> for the confidence).
\<close>

definition generate_mock_vitals :: "draws \<Rightarrow> (kind \<rightharpoonup> rat option)" where
  "generate_mock_vitals r =
     [HR \<mapsto> Some (of_int (140 + d_hr r)),
      SPO2 \<mapsto> Some (of_int (min 100 (max 88 (96 + d_spo2 r)))),
      RR \<mapsto> Some (of_int (45 + d_rr r)),
      TEMP \<mapsto> Some (round1 (368 / 10 + d_temp r))]"

definition mock_draws :: "draws \<Rightarrow> bool" where
  "mock_draws r =
     (- 10 \<le> d_hr r \<and> d_hr r \<le> 10 \<and> - 3 \<le> d_spo2 r \<and> d_spo2 r \<le> 2
      \<and> - 5 \<le> d_rr r \<and> d_rr r \<le> 5 \<and> - (3 / 10) \<le> d_temp r \<and> d_temp r \<le> 3 / 10
      \<and> 0 \<le> d_conf r \<and> d_conf r \<le> 12 / 100)"

section \<open>The sampling loops\<close>

text \<open>
  The loop of \<^verbatim>\<open>main\<close> in camera-connector-production.py. Its state is the smoother,
  the flag \<^verbatim>\<open>stream.connected\<close> (set by the connection attempts before the loop; no
  statement of the loop clears it), the two counters and the network. A tick is given what
  \<^verbatim>\<open>stream.get_frame()\<close> returns when the stream is connected (a frame or
  \<^verbatim>\<open>None\<close>) and the random draws. The result of a tick is the new state and the
  reading it submitted; \<open>Inl e\<close> is an exception that ends the loop.
\<close>

record main_state =
  smoother :: VitalSmoother
  connected :: bool
  total_sent :: nat
  ocr_success :: nat
  net :: http

record tick_env =
  grabbed :: "frame option"
  rnd :: draws

record reading =
  r_mode :: string
  r_vitals :: vitals
  r_confidence :: rat
  r_result :: result

definition main_init :: "bool \<Rightarrow> http \<Rightarrow> main_state" where
  "main_init c h =
     \<lparr>smoother = VitalSmoother_new, connected = c, total_sent = 0, ocr_success = 0, net = h\<rparr>"

text \<open>
  The first half of the loop body:
  \<^verbatim>\<open>
      mode = "SIM"; vitals = {}; confidence = 0.0
      if stream.connected:
          frame, latency = stream.get_frame()
          if frame is not None:
              ocr_vitals, ocr_conf, _ = extract_vitals(frame)
              if len(ocr_vitals) >= 2:
                  vitals = smoother.smooth(ocr_vitals)
                  confidence = ocr_conf
                  mode = "OCR"
                  ocr_success += 1
  \<close>
  It yields the smoother, \<^verbatim>\<open>vitals\<close>, \<^verbatim>\<open>confidence\<close>, \<^verbatim>\<open>mode\<close> and
  \<^verbatim>\<open>ocr_success\<close>.
\<close>

definition ocr_attempt ::
  "main_state \<Rightarrow> tick_env \<Rightarrow> exn + (VitalSmoother \<times> vitals \<times> rat \<times> string \<times> nat)" where
  "ocr_attempt s env =
     (if connected s
      then (case grabbed env of
              None \<Rightarrow> Inr (smoother s, Map.empty, 0, ''SIM'', ocr_success s)
            | Some frame \<Rightarrow>
                (case extract_vitals frame of
                   Inl e \<Rightarrow> Inl e
                 | Inr (ocr_vitals, ocr_conf, ocr_text) \<Rightarrow>
                     if 2 \<le> len ocr_vitals
                     then (let (sm, vitals) = smooth (smoother s) ocr_vitals
                           in Inr (sm, vitals, ocr_conf, ''OCR'', ocr_success s + 1))
                     else Inr (smoother s, Map.empty, 0, ''SIM'', ocr_success s)))
      else Inr (smoother s, Map.empty, 0, ''SIM'', ocr_success s))"

text \<open>
  The second half:
  \<^verbatim>\<open>
      if not vitals or len(vitals) < 2:
          vitals = smoother.smooth(generate_simulation_vitals())
          confidence = 0.87 + random.uniform(0, 0.10)
          mode = "SIM"
      metadata = {"source": "pi-zero-2w", "mode": mode}
      result = send_vitals(vitals, confidence, metadata)
      total_sent += 1
  \<close>
\<close>

definition main_tick :: "tick_env \<Rightarrow> main_state \<Rightarrow> exn + (main_state \<times> reading)" where
  "main_tick env s =
     (case ocr_attempt s env of
        Inl e \<Rightarrow> Inl e
      | Inr (sm1, vitals1, confidence1, mode1, ocr_success') \<Rightarrow>
          (let (sm2, vitals, confidence, mode) =
                 (if len vitals1 = 0 \<or> len vitals1 < 2
                  then (let (sm, v) = smooth sm1 (generate_simulation_vitals (rnd env))
                        in (sm, v, 87 / 100 + d_conf (rnd env), ''SIM''))
                  else (sm1, vitals1, confidence1, mode1));
               metadata = [(''source'', JStr ''pi-zero-2w''), (''mode'', JStr mode)];
               (res, net') = send_vitals (net s) vitals confidence metadata
           in case res of
                Inl e \<Rightarrow> Inl e
              | Inr result \<Rightarrow>
                  Inr (s\<lparr>smoother := sm2, total_sent := total_sent s + 1,
                         ocr_success := ocr_success', net := net'\<rparr>,
                       \<lparr>r_mode = mode, r_vitals = vitals, r_confidence = confidence,
                        r_result = result\<rparr>)))"

text \<open>The ticks of a run, until the first exception that leaves the loop.\<close>

fun main_loop :: "tick_env list \<Rightarrow> main_state \<Rightarrow> exn + (main_state \<times> reading list)" where
  "main_loop [] s = Inr (s, [])"
| "main_loop (env # envs) s =
     (case main_tick env s of
        Inl e \<Rightarrow> Inl e
      | Inr (s', r) \<Rightarrow>
          (case main_loop envs s' of
             Inl e \<Rightarrow> Inl e
           | Inr (s'', rs) \<Rightarrow> Inr (s'', r # rs)))"

text \<open>
  The loop body of \<^verbatim>\<open>main\<close> in vlm-vitals-extractor.py, given the frame of the tick
  (\<open>None\<close> when the stream is not connected or returns no frame):
  \<^verbatim>\<open>
      if frame is not None:
          vitals, confidence, inference_time, vlm_response = extract_vitals_vlm(frame)
          total_queries += 1
          if any(v is not None for v in vitals.values()):
              successful_extractions += 1
              result = send_vitals(vitals, confidence, inference_time, vlm_response)
          else:
              result = {"error": "No vitals detected in image"}
  \<close>
  There is no simulated reading in this script.
\<close>

record vlm_state =
  total_queries :: nat
  successful_extractions :: nat
  vlm_net :: http

definition vlm_tick ::
  "(string \<Rightarrow> exn + (vlm_key \<rightharpoonup> json)) \<Rightarrow> vlm_frame option \<Rightarrow> vlm_state \<Rightarrow> exn + vlm_state" where
  "vlm_tick json_loads grabbed_frame s =
     (case grabbed_frame of
        None \<Rightarrow> Inr s
      | Some frame \<Rightarrow>
          (case extract_vitals_vlm json_loads frame of
             Inl e \<Rightarrow> Inl e
           | Inr (vitals, confidence, inference_time, vlm_response) \<Rightarrow>
               if 0 < valid_count vitals
               then (case send_vitals_vlm (vlm_net s) vitals confidence inference_time vlm_response of
                       (Inl e, net') \<Rightarrow> Inl e
                     | (Inr result, net') \<Rightarrow>
                         Inr (s\<lparr>total_queries := total_queries s + 1,
                                successful_extractions := successful_extractions s + 1,
                                vlm_net := net'\<rparr>))
               else Inr (s\<lparr>total_queries := total_queries s + 1\<rparr>)))"

text \<open>
  The loop body of \<^verbatim>\<open>main\<close> in camera-to-dashboard.py:
  \<^verbatim>\<open>
      vitals = generate_mock_vitals()
      confidence = 0.85 + random.uniform(0, 0.12)
      result = send_vitals(vitals, confidence)
  \<close>
\<close>

definition mock_tick :: "draws \<Rightarrow> http \<Rightarrow> (exn + result) \<times> http" where
  "mock_tick r h = send_vitals_mock h (generate_mock_vitals r) (85 / 100 + d_conf r)"

section \<open>Invariants used in the proofs\<close>

text \<open>
  The invariant of the two loops of \<^verbatim>\<open>parse_vitals_response\<close>: every value in the
  dictionary is in the range of its key and is the float read from the parsed object or
  from a fallback pattern.
\<close>

definition vlm_sound :: "(vlm_key \<rightharpoonup> json) \<Rightarrow> string \<Rightarrow> vlm_vitals \<Rightarrow> bool" where
  "vlm_sound data text vitals =
     (\<forall>key w. vitals key = Some (Some w) \<longrightarrow>
        in_range (VALID_RANGES_vlm key) w
        \<and> ((\<exists>x. data key = Some x \<and> float_of_json x = Inr (Finite w))
            \<or> (\<exists>k g. key = Vital k \<and> re_search (fallback_pattern k) text True = Some g
                  \<and> py_float g = Inr (Finite w))))"

text \<open>
  The confidence an extractor returns, as a Python value: \<^verbatim>\<open>extract_vitals\<close> and
  \<^verbatim>\<open>extract_vitals_vlm\<close> return a float, \<^verbatim>\<open>extract_vitals_ocr\<close> returns the
  dictionary of per-vital scores. A dictionary is never equal to a number.
\<close>

datatype pyvalue = Number rat | Dict "kind \<rightharpoonup> rat"

section \<open>Properties of the smoother\<close>

lemma len_deque_append:
  "length (deque_append n d x) = (if n < Suc (length d) then length d else Suc (length d))"
  by (simp add: deque_append_def Let_def)

lemma deque_append_bounded:
  "length d \<le> n \<Longrightarrow> length (deque_append n d x) \<le> n"
  by (simp add: len_deque_append)

lemma deque_append_full:
  "length d = n \<Longrightarrow> 0 < n \<Longrightarrow> deque_append n d x = tl d @ [x]"
  by (cases d) (simp_all add: deque_append_def Let_def)

lemma deque_append_room:
  "length d < n \<Longrightarrow> deque_append n d x = d @ [x]"
  by (simp add: deque_append_def Let_def)

lemma set_deque_append:
  "set (deque_append n d x) \<subseteq> insert x (set d)"
  by (cases d) (auto simp: deque_append_def Let_def)

lemma deque_append_holds_new:
  "0 < n \<Longrightarrow> x \<in> set (deque_append n d x)"
  by (cases d) (auto simp: deque_append_def Let_def)

text \<open>What one pass of the loop over the keys \<open>ks\<close> leaves in the two dictionaries.\<close>

lemma for_items_smooth_item:
  assumes "distinct ks"
    and "for_items (smooth_item w) vit ks (h, sm) = (h', sm')"
  shows "h' k = (if k \<in> set ks
                 then (case vit k of None \<Rightarrow> h k | Some v \<Rightarrow> deque_append w (h k) v)
                 else h k)
       \<and> sm' k = (if k \<in> set ks
                 then (case vit k of None \<Rightarrow> sm k
                       | Some v \<Rightarrow> Some (if 3 \<le> length (deque_append w (h k) v)
                                         then middle_of_sorted (deque_append w (h k) v)
                                         else v))
                 else sm k)"
  using assms
proof (induction ks arbitrary: h sm)
  case Nil
  then show ?case by simp
next
  case (Cons key ks)
  show ?case
  proof (cases "vit key")
    case None
    with Cons.prems have "for_items (smooth_item w) vit ks (h, sm) = (h', sm')" by simp
    with Cons.IH Cons.prems(1) None show ?thesis by (auto split: option.splits)
  next
    case (Some val)
    obtain h1 sm1 where step: "smooth_item w key val (h, sm) = (h1, sm1)"
      by (cases "smooth_item w key val (h, sm)")
    with Cons.prems Some have rest: "for_items (smooth_item w) vit ks (h1, sm1) = (h', sm')"
      by simp
    have h1: "h1 = h(key := deque_append w (h key) val)"
      using step by (auto simp: smooth_item_def Let_def split: if_splits)
    have sm1: "sm1 = sm(key \<mapsto> (if 3 \<le> length (deque_append w (h key) val)
                                  then middle_of_sorted (deque_append w (h key) val)
                                  else val))"
      using step by (auto simp: smooth_item_def Let_def middle_of_sorted_def split: if_splits)
    from Cons.prems(1) have "distinct ks" and notin: "key \<notin> set ks" by simp_all
    from Cons.IH[OF \<open>distinct ks\<close> rest] show ?thesis
      using notin Some by (auto simp: h1 sm1 split: option.splits)
  qed
qed

lemma distinct_kinds: "distinct kinds"
  by (simp add: kinds_def)

lemma set_kinds: "k \<in> set kinds"
  by (cases k) (simp_all add: kinds_def)

lemma smooth_history:
  "smooth s vit = (s', sm) \<Longrightarrow>
   history s' k = (case vit k of None \<Rightarrow> history s k
                   | Some v \<Rightarrow> deque_append (window_size s) (history s k) v)"
  using for_items_smooth_item[OF distinct_kinds, of "window_size s" vit "history s" Map.empty _ _ k]
  by (auto simp: smooth_def Let_def set_kinds split: prod.splits)

lemma smooth_smoothed:
  "smooth s vit = (s', sm) \<Longrightarrow>
   sm k = (case vit k of None \<Rightarrow> None
           | Some v \<Rightarrow> Some (if 3 \<le> length (deque_append (window_size s) (history s k) v)
                             then middle_of_sorted (deque_append (window_size s) (history s k) v)
                             else v))"
  using for_items_smooth_item[OF distinct_kinds, of "window_size s" vit "history s" Map.empty _ _ k]
  by (auto simp: smooth_def Let_def set_kinds split: prod.splits)

lemma smooth_window_size:
  "smooth s vit = (s', sm) \<Longrightarrow> window_size s' = window_size s"
  by (auto simp: smooth_def Let_def split: prod.splits)

lemma apply_smoothing_history:
  "apply_smoothing h vit = (h', sm) \<Longrightarrow>
   h' k = (case vit k of None \<Rightarrow> h k | Some v \<Rightarrow> deque_append SMOOTHING_WINDOW (h k) v)"
  using for_items_smooth_item[OF distinct_kinds, of SMOOTHING_WINDOW vit h Map.empty h' sm k]
  by (auto simp: apply_smoothing_def set_kinds)

lemma apply_smoothing_smoothed:
  "apply_smoothing h vit = (h', sm) \<Longrightarrow>
   sm k = (case vit k of None \<Rightarrow> None
           | Some v \<Rightarrow> Some (if 3 \<le> length (deque_append SMOOTHING_WINDOW (h k) v)
                             then middle_of_sorted (deque_append SMOOTHING_WINDOW (h k) v)
                             else v))"
  using for_items_smooth_item[OF distinct_kinds, of SMOOTHING_WINDOW vit h Map.empty h' sm k]
  by (auto simp: apply_smoothing_def set_kinds)

lemma count_below_sorted_nth:
  fixes ys :: "rat list"
  assumes "sorted ys" and "i < length ys"
  shows "length (filter (\<lambda>x. x < ys ! i) ys) \<le> i"
proof -
  have split: "ys = take i ys @ drop i ys" by simp
  have "\<forall>x \<in> set (drop i ys). ys ! i \<le> x"
  proof
    fix x assume "x \<in> set (drop i ys)"
    then obtain j where "j < length (drop i ys)" and "x = drop i ys ! j"
      by (auto simp: in_set_conv_nth)
    then have "x = ys ! (i + j)" and "i + j < length ys" using assms(2) by auto
    with assms(1) show "ys ! i \<le> x" by (simp add: sorted_nth_mono)
  qed
  then have "filter (\<lambda>x. x < ys ! i) (drop i ys) = []"
    by (auto simp: filter_empty_conv)
  then have "filter (\<lambda>x. x < ys ! i) ys = filter (\<lambda>x. x < ys ! i) (take i ys)"
    by (metis split filter_append append_Nil2)
  then have "length (filter (\<lambda>x. x < ys ! i) ys) \<le> length (take i ys)"
    by (metis length_filter_le)
  then show ?thesis by simp
qed

lemma count_above_sorted_nth:
  fixes ys :: "rat list"
  assumes "sorted ys" and "i < length ys"
  shows "length (filter (\<lambda>x. ys ! i < x) ys) \<le> length ys - Suc i"
proof -
  have split: "ys = take (Suc i) ys @ drop (Suc i) ys" by simp
  have "\<forall>x \<in> set (take (Suc i) ys). x \<le> ys ! i"
  proof
    fix x assume "x \<in> set (take (Suc i) ys)"
    then obtain j where "j < length (take (Suc i) ys)" and "x = take (Suc i) ys ! j"
      by (auto simp: in_set_conv_nth)
    then have "x = ys ! j" and "j \<le> i" by auto
    with assms show "x \<le> ys ! i" by (simp add: sorted_nth_mono)
  qed
  then have "filter (\<lambda>x. ys ! i < x) (take (Suc i) ys) = []"
    by (auto simp: filter_empty_conv)
  then have "filter (\<lambda>x. ys ! i < x) ys = filter (\<lambda>x. ys ! i < x) (drop (Suc i) ys)"
    by (metis split filter_append append_Nil)
  then have "length (filter (\<lambda>x. ys ! i < x) ys) \<le> length (drop (Suc i) ys)"
    by (metis length_filter_le)
  then show ?thesis by simp
qed

lemma length_filter_sort:
  fixes xs :: "rat list"
  shows "length (filter P (sort xs)) = length (filter P xs)"
proof -
  have "mset (filter P (sort xs)) = mset (filter P xs)" by simp
  then show ?thesis by (metis size_mset)
qed

lemma middle_of_sorted_is_median:
  assumes "buf \<noteq> []"
  shows "middle_of_sorted buf \<in> set buf
       \<and> 2 * length (filter (\<lambda>x. x < middle_of_sorted buf) buf) \<le> length buf
       \<and> 2 * length (filter (\<lambda>x. middle_of_sorted buf < x) buf) \<le> length buf"
proof -
  let ?ys = "sort buf" and ?i = "length buf div 2"
  have i: "?i < length ?ys" using assms by (cases buf) simp_all
  have m: "middle_of_sorted buf = ?ys ! ?i" by (simp add: middle_of_sorted_def)
  have "?ys ! ?i \<in> set ?ys" using i by (rule nth_mem)
  then have mem: "middle_of_sorted buf \<in> set buf" by (simp add: m)
  have "length (filter (\<lambda>x. x < ?ys ! ?i) ?ys) \<le> ?i"
    using i by (intro count_below_sorted_nth) simp_all
  then have below: "length (filter (\<lambda>x. x < middle_of_sorted buf) buf) \<le> ?i"
    by (simp add: m length_filter_sort)
  have "length (filter (\<lambda>x. ?ys ! ?i < x) ?ys) \<le> length ?ys - Suc ?i"
    using i by (intro count_above_sorted_nth) simp_all
  then have above: "length (filter (\<lambda>x. middle_of_sorted buf < x) buf) \<le> length buf - Suc ?i"
    by (simp add: m length_filter_sort)
  from below above mem show ?thesis by linarith
qed

text \<open>
  C1: for every vital kind \<open>k\<close> that the pushed dictionary holds with raw value \<open>v\<close>,
  the push leaves in the buffer of \<open>k\<close> the previous buffer with \<open>v\<close> appended (the
  oldest sample dropped when the window was full), and the smoothed output for \<open>k\<close> is
  the middle element of that buffer in sorted order when it holds at least 3 samples, and
  is \<open>v\<close> itself when it holds fewer. This holds for \<^verbatim>\<open>VitalSmoother.smooth\<close> and
  for \<^verbatim>\<open>apply_smoothing\<close>. By \<open>middle_of_sorted_is_median\<close> the middle element is a
  median in the order sense: at most half of the samples lie strictly below it and at most
  half strictly above.
\<close>

theorem smoothed_is_median_or_raw:
  assumes "vitals k = Some v"
  shows "(case smooth self vitals of (self', smoothed) \<Rightarrow>
            history self' k = deque_append (window_size self) (history self k) v
            \<and> smoothed k
                = Some (if 3 \<le> length (deque_append (window_size self) (history self k) v)
                        then middle_of_sorted (deque_append (window_size self) (history self k) v)
                        else v)
            \<and> smoothed k = Some (if 3 \<le> length (history self' k)
                                 then middle_of_sorted (history self' k) else v))
       \<and> (case apply_smoothing vital_history vitals of (vital_history', smoothed) \<Rightarrow>
            vital_history' k = deque_append SMOOTHING_WINDOW (vital_history k) v
            \<and> smoothed k
                = Some (if 3 \<le> length (deque_append SMOOTHING_WINDOW (vital_history k) v)
                        then middle_of_sorted (deque_append SMOOTHING_WINDOW (vital_history k) v)
                        else v)
            \<and> smoothed k = Some (if 3 \<le> length (vital_history' k)
                                 then middle_of_sorted (vital_history' k) else v))"
proof -
  obtain s' sm where s: "smooth self vitals = (s', sm)" by (cases "smooth self vitals")
  obtain h' sm2 where a: "apply_smoothing vital_history vitals = (h', sm2)"
    by (cases "apply_smoothing vital_history vitals")
  let ?b = "deque_append (window_size self) (history self k) v"
  let ?c = "deque_append SMOOTHING_WINDOW (vital_history k) v"
  have hs: "history s' k = ?b"
    using smooth_history[OF s, of k] assms by simp
  have os: "sm k = Some (if 3 \<le> length ?b then middle_of_sorted ?b else v)"
    using smooth_smoothed[OF s, of k] assms by simp
  have ha: "h' k = ?c"
    using apply_smoothing_history[OF a, of k] assms by simp
  have oa: "sm2 k = Some (if 3 \<le> length ?c then middle_of_sorted ?c else v)"
    using apply_smoothing_smoothed[OF a, of k] assms by simp
  have "history s' k = ?b
        \<and> sm k = Some (if 3 \<le> length ?b then middle_of_sorted ?b else v)
        \<and> sm k = Some (if 3 \<le> length (history s' k) then middle_of_sorted (history s' k) else v)"
    unfolding hs using os by simp
  moreover
  have "h' k = ?c
        \<and> sm2 k = Some (if 3 \<le> length ?c then middle_of_sorted ?c else v)
        \<and> sm2 k = Some (if 3 \<le> length (h' k) then middle_of_sorted (h' k) else v)"
    unfolding ha using oa by simp
  ultimately show ?thesis unfolding s a by simp
qed

theorem smoothed_is_median_or_raw_witness:
  "[HR \<mapsto> 148::rat] HR = Some 148
   \<and> history (fst (smooth \<lparr>window_size = 5, history = (\<lambda>k. [150, 152])\<rparr> [HR \<mapsto> 148])) HR
       = [150, 152, 148]
   \<and> snd (smooth \<lparr>window_size = 5, history = (\<lambda>k. [150, 152])\<rparr> [HR \<mapsto> 148]) HR = Some 150
   \<and> fst (apply_smoothing (\<lambda>k. [150, 152]) [HR \<mapsto> 148]) HR = [150, 152, 148]
   \<and> snd (apply_smoothing (\<lambda>k. [150, 152]) [HR \<mapsto> 148]) HR = Some 150"
proof -
  have d: "deque_append 5 [150, 152] (148::rat) = [150, 152, 148]"
    by (simp add: deque_append_def)
  have m: "middle_of_sorted [150, 152, 148] = 150"
    by (simp add: middle_of_sorted_def)
  from smoothed_is_median_or_raw[of "[HR \<mapsto> 148]" HR 148
          "\<lparr>window_size = 5, history = (\<lambda>k. [150, 152])\<rparr>" "(\<lambda>k. [150, 152])"]
  show ?thesis
    by (simp add: SMOOTHING_WINDOW_def d m split: prod.splits)
qed

text \<open>
  \<^verbatim>\<open>apply_smoothing\<close> on a full window and on a short buffer: the oldest sample is
  dropped and the middle of the remaining five is returned; with fewer than 3 samples the
  raw value is returned.
\<close>

lemma apply_smoothing_examples:
  "fst (apply_smoothing (\<lambda>k. [1, 2, 3, 4, 5]) [HR \<mapsto> 6]) HR = [2, 3, 4, 5, 6]
   \<and> snd (apply_smoothing (\<lambda>k. [1, 2, 3, 4, 5]) [HR \<mapsto> 6]) HR = Some 4
   \<and> fst (apply_smoothing (\<lambda>k. [150]) [HR \<mapsto> 148]) HR = [150, 148]
   \<and> snd (apply_smoothing (\<lambda>k. [150]) [HR \<mapsto> 148]) HR = Some 148"
  by (simp add: apply_smoothing_def kinds_def smooth_item_def deque_append_def
        SMOOTHING_WINDOW_def Let_def)

lemma smooth_run_Nil: "smooth_run s [] = s"
  by (simp add: smooth_run_def)

lemma smooth_run_snoc: "smooth_run s (ps @ [p]) = fst (smooth (smooth_run s ps) p)"
  by (simp add: smooth_run_def)

lemma apply_smoothing_run_Nil: "apply_smoothing_run h [] = h"
  by (simp add: apply_smoothing_run_def)

lemma apply_smoothing_run_snoc:
  "apply_smoothing_run h (ps @ [p]) = fst (apply_smoothing (apply_smoothing_run h ps) p)"
  by (simp add: apply_smoothing_run_def)

lemma smooth_run_window_size: "window_size (smooth_run s ps) = window_size s"
proof (induction ps rule: rev_induct)
  case Nil
  show ?case by (simp add: smooth_run_Nil)
next
  case (snoc p ps)
  obtain s' sm where "smooth (smooth_run s ps) p = (s', sm)"
    by (cases "smooth (smooth_run s ps) p")
  with snoc smooth_window_size[OF this] show ?case by (simp add: smooth_run_snoc)
qed

lemma smooth_run_bounded:
  assumes "\<forall>k. length (history s k) \<le> window_size s"
  shows "length (history (smooth_run s ps) k) \<le> window_size s"
proof (induction ps arbitrary: k rule: rev_induct)
  case Nil
  show ?case using assms by (simp add: smooth_run_Nil)
next
  case (snoc p ps)
  obtain s' sm where st: "smooth (smooth_run s ps) p = (s', sm)"
    by (cases "smooth (smooth_run s ps) p")
  have "length (history s' k) \<le> window_size s"
    using smooth_history[OF st, of k] snoc[of k] smooth_run_window_size[of s ps]
    by (auto simp: deque_append_bounded split: option.splits)
  then show ?case by (simp add: smooth_run_snoc st)
qed

lemma apply_smoothing_run_bounded:
  assumes "\<forall>k. length (h k) \<le> SMOOTHING_WINDOW"
  shows "length (apply_smoothing_run h ps k) \<le> SMOOTHING_WINDOW"
proof (induction ps arbitrary: k rule: rev_induct)
  case Nil
  show ?case using assms by (simp add: apply_smoothing_run_Nil)
next
  case (snoc p ps)
  obtain h' sm where st: "apply_smoothing (apply_smoothing_run h ps) p = (h', sm)"
    by (cases "apply_smoothing (apply_smoothing_run h ps) p")
  have "length (h' k) \<le> SMOOTHING_WINDOW"
    using apply_smoothing_history[OF st, of k] snoc[of k]
    by (auto simp: deque_append_bounded split: option.splits)
  then show ?case by (simp add: apply_smoothing_run_snoc st)
qed

lemma deque_append_5:
  "length d \<le> 5 \<Longrightarrow> deque_append 5 d v = (if length d = 5 then tl d @ [v] else d @ [v])"
  by (cases d) (auto simp: deque_append_def Let_def)

text \<open>
  C8: in every state the smoother reaches from its initial state by any sequence of
  pushes, and after one more push, every kind's buffer holds at most 5 samples. The push
  leaves the buffer of a kind that the pushed dictionary does not hold unchanged; for a
  kind it holds, the new sample is appended on the right, and when the buffer was full
  (5 samples) its oldest, leftmost sample is dropped. The same holds for the module-level
  \<^verbatim>\<open>vital_history\<close> of camera-to-dashboard-ocr.py under \<^verbatim>\<open>apply_smoothing\<close>.
\<close>

theorem buffer_bounded_fifo_independent:
  "(let s = smooth_run VitalSmoother_new pushes; s' = fst (smooth s vitals)
    in length (history s k) \<le> 5 \<and> length (history s' k) \<le> 5
       \<and> history s' k =
           (case vitals k of
              None \<Rightarrow> history s k
            | Some v \<Rightarrow> if length (history s k) = 5 then tl (history s k) @ [v]
                        else history s k @ [v]))
 \<and> (let h = apply_smoothing_run vital_history_init pushes; h' = fst (apply_smoothing h vitals)
    in length (h k) \<le> 5 \<and> length (h' k) \<le> 5
       \<and> h' k =
           (case vitals k of
              None \<Rightarrow> h k
            | Some v \<Rightarrow> if length (h k) = 5 then tl (h k) @ [v] else h k @ [v]))"
proof -
  define s where "s = smooth_run VitalSmoother_new pushes"
  define h where "h = apply_smoothing_run vital_history_init pushes"
  obtain s' sm where st: "smooth s vitals = (s', sm)" by (cases "smooth s vitals")
  obtain h' sm2 where at: "apply_smoothing h vitals = (h', sm2)"
    by (cases "apply_smoothing h vitals")
  have w: "window_size s = 5"
    by (simp add: s_def smooth_run_window_size VitalSmoother_new_def VitalSmoother_init_def)
  have b: "length (history s j) \<le> 5" for j
    using smooth_run_bounded[of VitalSmoother_new pushes j]
    by (simp add: s_def VitalSmoother_new_def VitalSmoother_init_def)
  have hb: "length (h j) \<le> 5" for j
    using apply_smoothing_run_bounded[of vital_history_init pushes j]
    by (simp add: h_def vital_history_init_def SMOOTHING_WINDOW_def)
  have s'k: "history s' k = (case vitals k of None \<Rightarrow> history s k
               | Some v \<Rightarrow> if length (history s k) = 5 then tl (history s k) @ [v]
                           else history s k @ [v])"
    using smooth_history[OF st, of k] b[of k] by (simp add: w deque_append_5 split: option.splits)
  have h'k: "h' k = (case vitals k of None \<Rightarrow> h k
               | Some v \<Rightarrow> if length (h k) = 5 then tl (h k) @ [v] else h k @ [v])"
    using apply_smoothing_history[OF at, of k] hb[of k]
    by (simp add: SMOOTHING_WINDOW_def deque_append_5 split: option.splits)
  have s'b: "length (history s' k) \<le> 5"
    using smooth_history[OF st, of k] b[of k] deque_append_bounded[of "history s k" 5]
    by (simp add: w split: option.splits)
  have h'b: "length (h' k) \<le> 5"
    using apply_smoothing_history[OF at, of k] hb[of k] deque_append_bounded[of "h k" 5]
    by (simp add: SMOOTHING_WINDOW_def split: option.splits)
  show ?thesis
    unfolding Let_def s_def[symmetric] h_def[symmetric]
    using b[of k] hb[of k] s'b h'b s'k h'k by (simp add: st at)
qed

theorem buffer_bounded_fifo_independent_witness:
  "(let pushes = [[HR \<mapsto> 1], [HR \<mapsto> 2], [HR \<mapsto> 3], [HR \<mapsto> 4], [HR \<mapsto> 5, RR \<mapsto> 40]];
        s = smooth_run VitalSmoother_new pushes; s' = fst (smooth s [HR \<mapsto> 6])
    in history s HR = [1, 2, 3, 4, 5] \<and> history s' HR = [2, 3, 4, 5, 6]
       \<and> history s RR = [40] \<and> history s' RR = [40])"
  using buffer_bounded_fifo_independent[where k = HR and vitals = "[HR \<mapsto> 6]" and pushes =
          "[[HR \<mapsto> 1], [HR \<mapsto> 2], [HR \<mapsto> 3], [HR \<mapsto> 4], [HR \<mapsto> 5, RR \<mapsto> 40]]"]
  by (simp add: smooth_run_def smooth_def VitalSmoother_new_def VitalSmoother_init_def kinds_def
        smooth_item_def deque_append_def Let_def)

text \<open>Every buffered sample was pushed for its kind.\<close>

lemma smooth_run_pushed:
  assumes "x \<in> set (history (smooth_run s ps) k)"
  shows "x \<in> set (history s k) \<or> (\<exists>vit \<in> set ps. vit k = Some x)"
  using assms
proof (induction ps arbitrary: x rule: rev_induct)
  case Nil
  then show ?case by (simp add: smooth_run_Nil)
next
  case (snoc p ps)
  obtain s' sm where st: "smooth (smooth_run s ps) p = (s', sm)"
    by (cases "smooth (smooth_run s ps) p")
  from snoc.prems have x: "x \<in> set (history s' k)" by (simp add: smooth_run_snoc st)
  show ?case
  proof (cases "p k")
    case None
    with x smooth_history[OF st, of k] have "x \<in> set (history (smooth_run s ps) k)" by simp
    with snoc.IH show ?thesis by auto
  next
    case (Some v)
    with x smooth_history[OF st, of k] set_deque_append[of "window_size (smooth_run s ps)" "history (smooth_run s ps) k" v]
    have "x = v \<or> x \<in> set (history (smooth_run s ps) k)" by auto
    with snoc.IH Some show ?thesis by auto
  qed
qed

lemma apply_smoothing_run_pushed:
  assumes "x \<in> set (apply_smoothing_run h ps k)"
  shows "x \<in> set (h k) \<or> (\<exists>vit \<in> set ps. vit k = Some x)"
  using assms
proof (induction ps arbitrary: x rule: rev_induct)
  case Nil
  then show ?case by (simp add: apply_smoothing_run_Nil)
next
  case (snoc p ps)
  obtain h' sm where st: "apply_smoothing (apply_smoothing_run h ps) p = (h', sm)"
    by (cases "apply_smoothing (apply_smoothing_run h ps) p")
  from snoc.prems have x: "x \<in> set (h' k)" by (simp add: apply_smoothing_run_snoc st)
  show ?case
  proof (cases "p k")
    case None
    with x apply_smoothing_history[OF st, of k] have "x \<in> set (apply_smoothing_run h ps k)" by simp
    with snoc.IH show ?thesis by auto
  next
    case (Some v)
    with x apply_smoothing_history[OF st, of k] set_deque_append[of SMOOTHING_WINDOW "apply_smoothing_run h ps k" v]
    have "x = v \<or> x \<in> set (apply_smoothing_run h ps k)" by auto
    with snoc.IH Some show ?thesis by auto
  qed
qed

lemma middle_of_sorted_mem: "buf \<noteq> [] \<Longrightarrow> middle_of_sorted buf \<in> set buf"
  using middle_of_sorted_is_median by blast

text \<open>The output of one push is a sample of the buffer after the push.\<close>

lemma smooth_out_mem:
  assumes "0 < w"
  shows "(if 3 \<le> length (deque_append w d v) then middle_of_sorted (deque_append w d v) else v)
         \<in> set (deque_append w d v)"
proof (cases "3 \<le> length (deque_append w d v)")
  case True
  then have "deque_append w d v \<noteq> []" by auto
  with True show ?thesis by (simp add: middle_of_sorted_mem)
next
  case False
  with assms show ?thesis by (simp add: deque_append_holds_new)
qed

text \<open>
  C10: whenever the smoother, in a state reached from its initial state by any sequence of
  pushes, returns a smoothed value for a kind, that value is an element of the kind's
  buffer after the push, and it is one of the raw values pushed for that kind so far.
  Hence if every value pushed for the kind lies in the kind's valid range, so does the
  smoothed value: no intermediate value is made up by averaging. The same holds for
  \<^verbatim>\<open>apply_smoothing\<close> on \<^verbatim>\<open>vital_history\<close>.
\<close>

theorem smoothed_is_buffered_sample:
  "(smooth (smooth_run VitalSmoother_new pushes) vitals = (s', smoothed) \<and> smoothed k = Some x \<longrightarrow>
      x \<in> set (history s' k)
      \<and> (\<exists>vit \<in> set (pushes @ [vitals]). vit k = Some x)
      \<and> ((\<forall>vit \<in> set (pushes @ [vitals]). \<forall>v. vit k = Some v \<longrightarrow> in_range (VALID_RANGES k) v)
           \<longrightarrow> in_range (VALID_RANGES k) x))
 \<and> (apply_smoothing (apply_smoothing_run vital_history_init pushes) vitals = (h', smoothed') \<and> smoothed' k = Some y \<longrightarrow>
      y \<in> set (h' k)
      \<and> (\<exists>vit \<in> set (pushes @ [vitals]). vit k = Some y)
      \<and> ((\<forall>vit \<in> set (pushes @ [vitals]). \<forall>v. vit k = Some v \<longrightarrow> in_range (VALID_RANGES k) v)
           \<longrightarrow> in_range (VALID_RANGES k) y))"
proof -
  have A: "x \<in> set (history s' k) \<and> (\<exists>vit \<in> set (pushes @ [vitals]). vit k = Some x)"
    if st: "smooth (smooth_run VitalSmoother_new pushes) vitals = (s', smoothed)"
      and out: "smoothed k = Some x"
  proof -
    let ?s = "smooth_run VitalSmoother_new pushes"
    have w: "window_size ?s = 5"
      by (simp add: smooth_run_window_size VitalSmoother_new_def VitalSmoother_init_def)
    from out smooth_smoothed[OF st, of k] obtain v where v: "vitals k = Some v"
      by (cases "vitals k") simp_all
    have hist: "history s' k = deque_append 5 (history ?s k) v"
      using smooth_history[OF st, of k] v unfolding w by simp
    have "sm_k = Some x \<Longrightarrow> sm_k = Some y' \<Longrightarrow> x = y'" for sm_k :: "rat option" and y'
      by simp
    from this[OF out] smooth_smoothed[OF st, of k] v
    have outv: "x = (if 3 \<le> length (deque_append 5 (history ?s k) v)
                     then middle_of_sorted (deque_append 5 (history ?s k) v) else v)"
      unfolding w by simp
    have mem: "x \<in> set (history s' k)"
      unfolding hist outv by (rule smooth_out_mem) simp
    have "s' = smooth_run VitalSmoother_new (pushes @ [vitals])"
      by (simp add: smooth_run_snoc st)
    with mem smooth_run_pushed[of x VitalSmoother_new "pushes @ [vitals]" k]
    have "\<exists>vit \<in> set (pushes @ [vitals]). vit k = Some x"
      by (simp add: VitalSmoother_new_def VitalSmoother_init_def)
    with mem show ?thesis by simp
  qed
  have B: "y \<in> set (h' k) \<and> (\<exists>vit \<in> set (pushes @ [vitals]). vit k = Some y)"
    if st: "apply_smoothing (apply_smoothing_run vital_history_init pushes) vitals = (h', smoothed')"
      and out: "smoothed' k = Some y"
  proof -
    let ?h = "apply_smoothing_run vital_history_init pushes"
    from out apply_smoothing_smoothed[OF st, of k] obtain v where v: "vitals k = Some v"
      by (cases "vitals k") simp_all
    have hist: "h' k = deque_append SMOOTHING_WINDOW (?h k) v"
      using apply_smoothing_history[OF st, of k] v by simp
    have "sm_k = Some y \<Longrightarrow> sm_k = Some y' \<Longrightarrow> y = y'" for sm_k :: "rat option" and y'
      by simp
    from this[OF out] apply_smoothing_smoothed[OF st, of k] v
    have outv: "y = (if 3 \<le> length (deque_append SMOOTHING_WINDOW (?h k) v)
                     then middle_of_sorted (deque_append SMOOTHING_WINDOW (?h k) v) else v)"
      by simp
    have mem: "y \<in> set (h' k)"
      unfolding hist outv by (rule smooth_out_mem) (simp add: SMOOTHING_WINDOW_def)
    have "h' = apply_smoothing_run vital_history_init (pushes @ [vitals])"
      by (simp add: apply_smoothing_run_snoc st)
    with mem apply_smoothing_run_pushed[of y vital_history_init "pushes @ [vitals]" k]
    have "\<exists>vit \<in> set (pushes @ [vitals]). vit k = Some y"
      by (simp add: vital_history_init_def)
    with mem show ?thesis by simp
  qed
  from A B show ?thesis by blast
qed

theorem smoothed_is_buffered_sample_witness:
  "(let pushes = [[HR \<mapsto> 150], [HR \<mapsto> 152, RR \<mapsto> 40]]; vitals = [HR \<mapsto> 148];
        s = smooth_run VitalSmoother_new pushes; h = apply_smoothing_run vital_history_init pushes
    in smooth s vitals = (s\<lparr>history := (history s)(HR := [150, 152, 148])\<rparr>, [HR \<mapsto> 150])
     \<and> apply_smoothing h vitals = (h(HR := [150, 152, 148]), [HR \<mapsto> 150])
     \<and> (150::rat) \<in> set [150, 152, 148]
     \<and> in_range (VALID_RANGES HR) 150 \<and> in_range (VALID_RANGES HR) 152
     \<and> in_range (VALID_RANGES HR) 148)"
  using smoothed_is_buffered_sample[where pushes = "[[HR \<mapsto> 150], [HR \<mapsto> 152, RR \<mapsto> 40]]"
      and vitals = "[HR \<mapsto> 148]" and k = HR and x = 150 and y = 150
      and smoothed = "[HR \<mapsto> 150]" and smoothed' = "[HR \<mapsto> 150]"]
  by (simp add: smooth_run_def apply_smoothing_run_def smooth_def apply_smoothing_def
        VitalSmoother_new_def VitalSmoother_init_def vital_history_init_def SMOOTHING_WINDOW_def
        kinds_def smooth_item_def deque_append_def Let_def in_range_def)

section \<open>Properties of the sampling loop\<close>

lemma len_empty: "len Map.empty = 0"
  by (simp add: len_def)

lemma len_cong: "(\<And>k. (a k = None) = (b k = None)) \<Longrightarrow> len a = len b"
  by (simp add: len_def)

lemma len_smooth: "smooth sm v = (sm', v') \<Longrightarrow> len v' = len v"
proof -
  assume st: "smooth sm v = (sm', v')"
  have "(v' k = None) = (v k = None)" for k
    using smooth_smoothed[OF st, of k] by (simp split: option.splits)
  then show ?thesis by (rule len_cong)
qed

lemma len_4_iff: "len v = 4 \<longleftrightarrow> (\<forall>k. v k \<noteq> None)"
proof
  assume l: "len v = 4"
  show "\<forall>k. v k \<noteq> None"
  proof
    fix k
    from l show "v k \<noteq> None"
      by (cases k) (auto simp: len_def kinds_def split: if_splits)
  qed
next
  assume "\<forall>k. v k \<noteq> None"
  then show "len v = 4" by (simp add: len_def kinds_def)
qed

lemma generate_simulation_vitals_total: "generate_simulation_vitals r k \<noteq> None"
  by (cases k) (simp_all add: generate_simulation_vitals_def)

lemma smooth_total:
  assumes "smooth sm v = (sm', v')" and "\<forall>k. v k \<noteq> None"
  shows "v' k \<noteq> None"
  using smooth_smoothed[OF assms(1), of k] assms(2) by (auto split: option.splits)


text \<open>The two outcomes of the first half of a tick.\<close>

lemma ocr_attempt_OCR:
  assumes "connected s" and "grabbed env = Some frame"
    and "extract_vitals frame = Inr (ov, c, t)" and "2 \<le> len ov"
  shows "ocr_attempt s env =
           Inr (fst (smooth (smoother s) ov), snd (smooth (smoother s) ov), c, ''OCR'',
                ocr_success s + 1)"
  using assms by (simp add: ocr_attempt_def split_beta)

lemma ocr_attempt_SIM:
  assumes "\<not> connected s \<or> grabbed env = None
           \<or> (\<exists>frame ov c t. grabbed env = Some frame
                 \<and> extract_vitals frame = Inr (ov, c, t) \<and> len ov < 2)"
  shows "ocr_attempt s env = Inr (smoother s, Map.empty, 0, ''SIM'', ocr_success s)"
  using assms by (auto simp: ocr_attempt_def)

lemma ocr_attempt_raises:
  assumes "connected s" and "grabbed env = Some frame" and "extract_vitals frame = Inl e"
  shows "ocr_attempt s env = Inl e"
  using assms by (simp add: ocr_attempt_def)

lemma tick_situations:
  obtains (ocr) frame ov c t where "connected s" "grabbed env = Some frame"
      "extract_vitals frame = Inr (ov, c, t)" "2 \<le> len ov"
  | (sim) "\<not> connected s \<or> grabbed env = None
           \<or> (\<exists>frame ov c t. grabbed env = Some frame
                 \<and> extract_vitals frame = Inr (ov, c, t) \<and> len ov < 2)"
  | (raises) frame e where "connected s" "grabbed env = Some frame" "extract_vitals frame = Inl e"
proof (cases "connected s")
  case False
  then show ?thesis using sim by simp
next
  case True
  show ?thesis
  proof (cases "grabbed env")
    case None
    then show ?thesis using sim by simp
  next
    case (Some frame)
    show ?thesis
    proof (cases "extract_vitals frame")
      case (Inl e)
      with True Some show ?thesis using raises by simp
    next
      case (Inr res)
      obtain ov c t where res: "res = (ov, c, t)" by (cases res)
      show ?thesis
      proof (cases "2 \<le> len ov")
        case True
        with \<open>connected s\<close> Some Inr res show ?thesis using ocr by simp
      next
        case False
        then have "len ov < 2" by simp
        with Some Inr res show ?thesis using sim by blast
      qed
    qed
  qed
qed


lemma post_payload_eq:
  "post_payload h p =
     (case respond h (length (requests h)) of
        Inr answer \<Rightarrow> Inr answer
      | Inl e \<Rightarrow> if is_Exception e then Inr [(''error'', JStr (str e))] else Inl e,
      h\<lparr>requests := requests h @ [p]\<rparr>)"
  by (simp add: post_payload_def requests_post_def)

lemma snd_post_payload: "snd (post_payload h p) = h\<lparr>requests := requests h @ [p]\<rparr>"
  by (simp add: post_payload_eq)

text \<open>A tick that accepts the OCR reading, and a tick that falls back to simulation.\<close>

lemma main_tick_OCR:
  assumes "connected s" and "grabbed env = Some frame"
    and "extract_vitals frame = Inr (ov, c, t)" and "2 \<le> len ov"
  shows "main_tick env s =
           (case send_vitals (net s) (snd (smooth (smoother s) ov)) c
                   [(''source'', JStr ''pi-zero-2w''), (''mode'', JStr ''OCR'')] of
              (Inl e, net') \<Rightarrow> Inl e
            | (Inr result, net') \<Rightarrow>
                Inr (s\<lparr>smoother := fst (smooth (smoother s) ov), total_sent := total_sent s + 1,
                       ocr_success := ocr_success s + 1, net := net'\<rparr>,
                     \<lparr>r_mode = ''OCR'', r_vitals = snd (smooth (smoother s) ov),
                      r_confidence = c, r_result = result\<rparr>))"
proof -
  obtain sm' v' where st: "smooth (smoother s) ov = (sm', v')"
    by (cases "smooth (smoother s) ov")
  have "len v' = len ov" using st by (rule len_smooth)
  with assms(4) have l: "\<not> (len v' = 0 \<or> len v' < 2)" by simp
  show ?thesis
    unfolding main_tick_def ocr_attempt_OCR[OF assms]
    using l by (simp add: st split: prod.splits sum.splits)
qed

lemma main_tick_SIM:
  assumes "\<not> connected s \<or> grabbed env = None
           \<or> (\<exists>frame ov c t. grabbed env = Some frame
                 \<and> extract_vitals frame = Inr (ov, c, t) \<and> len ov < 2)"
  shows "main_tick env s =
           (case send_vitals (net s)
                   (snd (smooth (smoother s) (generate_simulation_vitals (rnd env))))
                   (87 / 100 + d_conf (rnd env))
                   [(''source'', JStr ''pi-zero-2w''), (''mode'', JStr ''SIM'')] of
              (Inl e, net') \<Rightarrow> Inl e
            | (Inr result, net') \<Rightarrow>
                Inr (s\<lparr>smoother := fst (smooth (smoother s) (generate_simulation_vitals (rnd env))),
                       total_sent := total_sent s + 1,
                       ocr_success := ocr_success s, net := net'\<rparr>,
                     \<lparr>r_mode = ''SIM'',
                      r_vitals = snd (smooth (smoother s) (generate_simulation_vitals (rnd env))),
                      r_confidence = 87 / 100 + d_conf (rnd env), r_result = result\<rparr>))"
  unfolding main_tick_def ocr_attempt_SIM[OF assms]
  by (simp add: len_empty split: prod.splits sum.splits)

lemma main_tick_raises:
  assumes "connected s" and "grabbed env = Some frame" and "extract_vitals frame = Inl e"
  shows "main_tick env s = Inl e"
  unfolding main_tick_def ocr_attempt_raises[OF assms] by simp

section \<open>Properties of the submission\<close>

lemma payload_entry_not_null: "payload_entry k v \<noteq> JNull"
  by (cases k) simp_all

lemma prune_not_null: "prune d k \<noteq> Some JNull"
  by (simp add: prune_def)

lemma prune_unpruned:
  "prune (unpruned_vitals get) k = Some j \<Longrightarrow> \<exists>v. get k = Some v \<and> v \<noteq> 0 \<and> j = payload_entry k v"
  by (auto simp: prune_def unpruned_vitals_def split: option.splits if_splits)

lemma prune_unpruned_present:
  "get k = Some v \<Longrightarrow> v \<noteq> 0 \<Longrightarrow> prune (unpruned_vitals get) k = Some (payload_entry k v)"
  by (simp add: prune_def unpruned_vitals_def payload_entry_not_null)

lemma generate_mock_vitals_values: "\<exists>v. generate_mock_vitals r k = Some (Some v)"
  by (cases k) (simp_all add: generate_mock_vitals_def)

text \<open>
  C6: every \<^verbatim>\<open>send_vitals\<close> posts a body whose \<^verbatim>\<open>vitals\<close> object holds no key with
  the value \<^verbatim>\<open>null\<close>. In camera-connector-production.py, camera-to-dashboard-ocr.py
  and vlm-vitals-extractor.py a key is in the object only if the reading holds a value for
  it that is neither \<^verbatim>\<open>None\<close> nor zero, and the value sent is that value (truncated
  to an integer, the temperature rounded to one decimal); the VLM script posts nothing
  when no key is left. camera-to-dashboard.py does no pruning, and the readings its loop
  submits are the mock readings, which hold a number for each of the four keys.
\<close>

theorem payload_has_no_null_vital:
  "(\<exists>p. snd (send_vitals h vitals confidence metadata) = h\<lparr>requests := requests h @ [p]\<rparr>
        \<and> (\<forall>k. p_vitals p k \<noteq> Some JNull)
        \<and> (\<forall>k j. p_vitals p k = Some j \<longrightarrow>
               (\<exists>v. vitals k = Some v \<and> v \<noteq> 0 \<and> j = payload_entry k v)))
 \<and> (\<exists>p. snd (send_vitals_ocr h vitals confidence ocr_text) = h\<lparr>requests := requests h @ [p]\<rparr>
        \<and> (\<forall>k. p_vitals p k \<noteq> Some JNull)
        \<and> (\<forall>k j. p_vitals p k = Some j \<longrightarrow>
               (\<exists>v. vitals k = Some v \<and> v \<noteq> 0 \<and> j = payload_entry k v)))
 \<and> (\<exists>p. snd (mock_tick r h) = h\<lparr>requests := requests h @ [p]\<rparr>
        \<and> (\<forall>k. p_vitals p k \<noteq> Some JNull)
        \<and> (\<forall>k. \<exists>v. generate_mock_vitals r k = Some (Some v)
                    \<and> p_vitals p k = Some (JFloat (Finite v))))
 \<and> (snd (send_vitals_vlm h vlm_vitals confidence inference_time vlm_response) = h
      \<or> (\<exists>p. snd (send_vitals_vlm h vlm_vitals confidence inference_time vlm_response)
                = h\<lparr>requests := requests h @ [p]\<rparr>
           \<and> (\<forall>k. p_vitals p k \<noteq> Some JNull)
           \<and> (\<forall>k j. p_vitals p k = Some j \<longrightarrow>
                  (\<exists>v. vlm_vitals (Vital k) = Some (Some v) \<and> v \<noteq> 0 \<and> j = payload_entry k v))))"
proof (intro conjI)
  show "\<exists>p. snd (send_vitals h vitals confidence metadata) = h\<lparr>requests := requests h @ [p]\<rparr>
        \<and> (\<forall>k. p_vitals p k \<noteq> Some JNull)
        \<and> (\<forall>k j. p_vitals p k = Some j \<longrightarrow>
               (\<exists>v. vitals k = Some v \<and> v \<noteq> 0 \<and> j = payload_entry k v))"
    unfolding send_vitals_def snd_post_payload
    by (rule exI, intro conjI, rule refl) (auto simp: prune_not_null dest: prune_unpruned)
  show "\<exists>p. snd (send_vitals_ocr h vitals confidence ocr_text) = h\<lparr>requests := requests h @ [p]\<rparr>
        \<and> (\<forall>k. p_vitals p k \<noteq> Some JNull)
        \<and> (\<forall>k j. p_vitals p k = Some j \<longrightarrow>
               (\<exists>v. vitals k = Some v \<and> v \<noteq> 0 \<and> j = payload_entry k v))"
    unfolding send_vitals_ocr_def snd_post_payload
    by (rule exI, intro conjI, rule refl) (auto simp: prune_not_null dest: prune_unpruned)
  show "\<exists>p. snd (mock_tick r h) = h\<lparr>requests := requests h @ [p]\<rparr>
        \<and> (\<forall>k. p_vitals p k \<noteq> Some JNull)
        \<and> (\<forall>k. \<exists>v. generate_mock_vitals r k = Some (Some v)
                    \<and> p_vitals p k = Some (JFloat (Finite v)))"
  proof -
    let ?p = "\<lparr>patientId = PATIENT_ID, cameraId = ''camera-001'',
               p_vitals = (\<lambda>k. case generate_mock_vitals r k of None \<Rightarrow> None
                                 | Some x \<Rightarrow> Some (json_of x)),
               p_confidence = 85 / 100 + d_conf r, p_metadata = []\<rparr>"
    have v: "\<exists>v. generate_mock_vitals r k = Some (Some v)
               \<and> p_vitals ?p k = Some (JFloat (Finite v))" for k
      using generate_mock_vitals_values[of r k] by auto
    then have n: "p_vitals ?p k \<noteq> Some JNull" for k
      by (metis json.distinct(5) option.inject)
    have "snd (mock_tick r h) = h\<lparr>requests := requests h @ [?p]\<rparr>"
      by (simp add: mock_tick_def send_vitals_mock_def snd_post_payload)
    with v n show ?thesis by blast
  qed
  show "snd (send_vitals_vlm h vlm_vitals confidence inference_time vlm_response) = h
      \<or> (\<exists>p. snd (send_vitals_vlm h vlm_vitals confidence inference_time vlm_response)
                = h\<lparr>requests := requests h @ [p]\<rparr>
           \<and> (\<forall>k. p_vitals p k \<noteq> Some JNull)
           \<and> (\<forall>k j. p_vitals p k = Some j \<longrightarrow>
                  (\<exists>v. vlm_vitals (Vital k) = Some (Some v) \<and> v \<noteq> 0 \<and> j = payload_entry k v)))"
  proof (cases "list_all (\<lambda>k. prune (unpruned_vitals (\<lambda>k. dict_get vlm_vitals (Vital k))) k = None) kinds")
    case True
    then show ?thesis by (simp add: send_vitals_vlm_def)
  next
    case False
    have get: "dict_get vlm_vitals (Vital k) = Some v \<Longrightarrow> vlm_vitals (Vital k) = Some (Some v)" for k v
      by (auto simp: dict_get_def split: option.splits)
    let ?p = "\<lparr>patientId = PATIENT_ID, cameraId = ''camera-vlm-001'',
               p_vitals = prune (unpruned_vitals (\<lambda>k. dict_get vlm_vitals (Vital k))),
               p_confidence = confidence,
               p_metadata = [(''source'', JStr ''moondream-vlm''),
                             (''vlm_response'', JStr (take 500 vlm_response)),
                             (''bp_sys'', json_of (dict_get vlm_vitals BP_SYS)),
                             (''bp_dia'', json_of (dict_get vlm_vitals BP_DIA))]\<rparr>"
    have eq: "snd (send_vitals_vlm h vlm_vitals confidence inference_time vlm_response)
                = h\<lparr>requests := requests h @ [?p]\<rparr>"
      using False by (simp add: send_vitals_vlm_def snd_post_payload)
    have n: "\<forall>k. p_vitals ?p k \<noteq> Some JNull"
      by (simp add: prune_not_null)
    have v: "\<forall>k j. p_vitals ?p k = Some j \<longrightarrow>
                  (\<exists>v. vlm_vitals (Vital k) = Some (Some v) \<and> v \<noteq> 0 \<and> j = payload_entry k v)"
      by (auto dest!: prune_unpruned get)
    from eq n v
    have "\<exists>p. snd (send_vitals_vlm h vlm_vitals confidence inference_time vlm_response)
                = h\<lparr>requests := requests h @ [p]\<rparr>
           \<and> (\<forall>k. p_vitals p k \<noteq> Some JNull)
           \<and> (\<forall>k j. p_vitals p k = Some j \<longrightarrow>
                  (\<exists>v. vlm_vitals (Vital k) = Some (Some v) \<and> v \<noteq> 0 \<and> j = payload_entry k v))"
      by blast
    then show ?thesis by blast
  qed
qed

theorem payload_has_no_null_vital_witness:
  "requests (snd (send_vitals \<lparr>requests = [], respond = (\<lambda>n. Inr [(''success'', JBool True)])\<rparr>
                    [HR \<mapsto> 150, TEMP \<mapsto> 0] (88 / 100) []))
     = [\<lparr>patientId = 1, cameraId = ''camera-001'', p_vitals = [HR \<mapsto> JInt 150],
         p_confidence = 88 / 100, p_metadata = []\<rparr>]"
proof -
  have "prune (unpruned_vitals [HR \<mapsto> 150, TEMP \<mapsto> 0]) = [HR \<mapsto> JInt 150]"
    by (rule ext) (simp add: prune_def unpruned_vitals_def py_int_def)
  then show ?thesis
    using payload_has_no_null_vital[of "\<lparr>requests = [], respond = (\<lambda>n. Inr [(''success'', JBool True)])\<rparr>"
        "[HR \<mapsto> 150, TEMP \<mapsto> 0]" "88 / 100" "[]"]
    by (simp add: send_vitals_def snd_post_payload PATIENT_ID_def)
qed

lemma send_vitals_eq:
  "send_vitals h vitals confidence metadata =
     (case respond h (length (requests h)) of
        Inr answer \<Rightarrow> Inr answer
      | Inl e \<Rightarrow> if is_Exception e then Inr [(''error'', JStr (str e))] else Inl e,
      h\<lparr>requests := requests h @
           [\<lparr>patientId = PATIENT_ID, cameraId = ''camera-001'',
             p_vitals = prune (unpruned_vitals vitals),
             p_confidence = confidence, p_metadata = metadata\<rparr>]\<rparr>)"
  by (simp add: send_vitals_def post_payload_eq)

text \<open>What a tick that returns has done.\<close>

lemma main_tick_Inr:
  assumes "main_tick env s = Inr (s', r)"
  shows "net s' = (net s)\<lparr>requests := requests (net s) @
           [\<lparr>patientId = PATIENT_ID, cameraId = ''camera-001'',
             p_vitals = prune (unpruned_vitals (r_vitals r)),
             p_confidence = r_confidence r,
             p_metadata = [(''source'', JStr ''pi-zero-2w''), (''mode'', JStr (r_mode r))]\<rparr>]\<rparr>"
    and "Inr (r_result r) =
           (case respond (net s) (length (requests (net s))) of
              Inr answer \<Rightarrow> Inr answer
            | Inl e \<Rightarrow> if is_Exception e then Inr [(''error'', JStr (str e))] else Inl e)"
    and "connected s' = connected s" and "total_sent s' = total_sent s + 1"
    and "(r_mode r = ''OCR'' \<and> ocr_success s' = ocr_success s + 1
          \<and> (\<exists>frame ov t. connected s \<and> grabbed env = Some frame
                \<and> extract_vitals frame = Inr (ov, r_confidence r, t) \<and> 2 \<le> len ov
                \<and> smooth (smoother s) ov = (smoother s', r_vitals r)))
       \<or> (r_mode r = ''SIM'' \<and> ocr_success s' = ocr_success s
          \<and> (\<not> connected s \<or> grabbed env = None
              \<or> (\<exists>frame ov c t. grabbed env = Some frame
                    \<and> extract_vitals frame = Inr (ov, c, t) \<and> len ov < 2))
          \<and> smooth (smoother s) (generate_simulation_vitals (rnd env)) = (smoother s', r_vitals r)
          \<and> r_confidence r = 87 / 100 + d_conf (rnd env))"
proof -
  let ?out = "respond (net s) (length (requests (net s)))"
  let ?res = "case ?out of Inr answer \<Rightarrow> Inr answer
              | Inl e \<Rightarrow> if is_Exception e then Inr [(''error'', JStr (str e))] else Inl e"
  consider (ocr) frame ov c t where "connected s" "grabbed env = Some frame"
      "extract_vitals frame = Inr (ov, c, t)" "2 \<le> len ov"
  | (sim) "\<not> connected s \<or> grabbed env = None
           \<or> (\<exists>frame ov c t. grabbed env = Some frame
                 \<and> extract_vitals frame = Inr (ov, c, t) \<and> len ov < 2)"
  | (raises) frame e where "connected s" "grabbed env = Some frame" "extract_vitals frame = Inl e"
    by (rule tick_situations)
  then have "net s' = (net s)\<lparr>requests := requests (net s) @
           [\<lparr>patientId = PATIENT_ID, cameraId = ''camera-001'',
             p_vitals = prune (unpruned_vitals (r_vitals r)),
             p_confidence = r_confidence r,
             p_metadata = [(''source'', JStr ''pi-zero-2w''), (''mode'', JStr (r_mode r))]\<rparr>]\<rparr>
    \<and> Inr (r_result r) = ?res
    \<and> connected s' = connected s \<and> total_sent s' = total_sent s + 1
    \<and> ((r_mode r = ''OCR'' \<and> ocr_success s' = ocr_success s + 1
          \<and> (\<exists>frame ov t. connected s \<and> grabbed env = Some frame
                \<and> extract_vitals frame = Inr (ov, r_confidence r, t) \<and> 2 \<le> len ov
                \<and> smooth (smoother s) ov = (smoother s', r_vitals r)))
       \<or> (r_mode r = ''SIM'' \<and> ocr_success s' = ocr_success s
          \<and> (\<not> connected s \<or> grabbed env = None
              \<or> (\<exists>frame ov c t. grabbed env = Some frame
                    \<and> extract_vitals frame = Inr (ov, c, t) \<and> len ov < 2))
          \<and> smooth (smoother s) (generate_simulation_vitals (rnd env)) = (smoother s', r_vitals r)
          \<and> r_confidence r = 87 / 100 + d_conf (rnd env)))"
  proof cases
    case ocr
    obtain result where res: "?res = Inr result"
      and s': "s' = s\<lparr>smoother := fst (smooth (smoother s) ov), total_sent := total_sent s + 1,
                       ocr_success := ocr_success s + 1,
                       net := (net s)\<lparr>requests := requests (net s) @
                          [\<lparr>patientId = PATIENT_ID, cameraId = ''camera-001'',
                            p_vitals = prune (unpruned_vitals (snd (smooth (smoother s) ov))),
                            p_confidence = c,
                            p_metadata = [(''source'', JStr ''pi-zero-2w''), (''mode'', JStr ''OCR'')]\<rparr>]\<rparr>\<rparr>"
      and r: "r = \<lparr>r_mode = ''OCR'', r_vitals = snd (smooth (smoother s) ov),
                    r_confidence = c, r_result = result\<rparr>"
      using assms unfolding main_tick_OCR[OF ocr] send_vitals_eq
      by (cases ?res) auto
    show ?thesis
      using ocr res by (auto simp: s' r)
  next
    case sim
    obtain result where res: "?res = Inr result"
      and s': "s' = s\<lparr>smoother := fst (smooth (smoother s) (generate_simulation_vitals (rnd env))),
                       total_sent := total_sent s + 1, ocr_success := ocr_success s,
                       net := (net s)\<lparr>requests := requests (net s) @
                          [\<lparr>patientId = PATIENT_ID, cameraId = ''camera-001'',
                            p_vitals = prune (unpruned_vitals
                               (snd (smooth (smoother s) (generate_simulation_vitals (rnd env))))),
                            p_confidence = 87 / 100 + d_conf (rnd env),
                            p_metadata = [(''source'', JStr ''pi-zero-2w''), (''mode'', JStr ''SIM'')]\<rparr>]\<rparr>\<rparr>"
      and r: "r = \<lparr>r_mode = ''SIM'',
                    r_vitals = snd (smooth (smoother s) (generate_simulation_vitals (rnd env))),
                    r_confidence = 87 / 100 + d_conf (rnd env), r_result = result\<rparr>"
      using assms unfolding main_tick_SIM[OF sim] send_vitals_eq
      by (cases ?res) auto
    show ?thesis
      using sim res by (auto simp: s' r)
  next
    case raises
    with assms main_tick_raises[OF raises] show ?thesis by simp
  qed
  then show "net s' = (net s)\<lparr>requests := requests (net s) @
           [\<lparr>patientId = PATIENT_ID, cameraId = ''camera-001'',
             p_vitals = prune (unpruned_vitals (r_vitals r)),
             p_confidence = r_confidence r,
             p_metadata = [(''source'', JStr ''pi-zero-2w''), (''mode'', JStr (r_mode r))]\<rparr>]\<rparr>"
    and "Inr (r_result r) = ?res"
    and "connected s' = connected s" and "total_sent s' = total_sent s + 1"
    and "(r_mode r = ''OCR'' \<and> ocr_success s' = ocr_success s + 1
          \<and> (\<exists>frame ov t. connected s \<and> grabbed env = Some frame
                \<and> extract_vitals frame = Inr (ov, r_confidence r, t) \<and> 2 \<le> len ov
                \<and> smooth (smoother s) ov = (smoother s', r_vitals r)))
       \<or> (r_mode r = ''SIM'' \<and> ocr_success s' = ocr_success s
          \<and> (\<not> connected s \<or> grabbed env = None
              \<or> (\<exists>frame ov c t. grabbed env = Some frame
                    \<and> extract_vitals frame = Inr (ov, c, t) \<and> len ov < 2))
          \<and> smooth (smoother s) (generate_simulation_vitals (rnd env)) = (smoother s', r_vitals r)
          \<and> r_confidence r = 87 / 100 + d_conf (rnd env))"
    by blast+
qed


text \<open>
  The network does not influence what a tick does to the rest of the state, nor the reading
  it submits.
\<close>

lemma main_tick_net_independent:
  assumes t1: "main_tick env (s\<lparr>net := h1\<rparr>) = Inr (s1, r1)"
    and t2: "main_tick env (s\<lparr>net := h2\<rparr>) = Inr (s2, r2)"
  shows "smoother s1 = smoother s2 \<and> total_sent s1 = total_sent s2
       \<and> ocr_success s1 = ocr_success s2 \<and> connected s1 = connected s2
       \<and> r_mode r1 = r_mode r2 \<and> r_vitals r1 = r_vitals r2 \<and> r_confidence r1 = r_confidence r2"
proof -
  consider (ocr) frame ov c t where "connected s" "grabbed env = Some frame"
      "extract_vitals frame = Inr (ov, c, t)" "2 \<le> len ov"
  | (sim) "\<not> connected s \<or> grabbed env = None
           \<or> (\<exists>frame ov c t. grabbed env = Some frame
                 \<and> extract_vitals frame = Inr (ov, c, t) \<and> len ov < 2)"
  | (raises) frame e where "connected s" "grabbed env = Some frame" "extract_vitals frame = Inl e"
    by (rule tick_situations)
  then show ?thesis
  proof cases
    case ocr
    have a: "main_tick env (s\<lparr>net := h\<rparr>) =
           (case send_vitals h (snd (smooth (smoother s) ov)) c
                   [(''source'', JStr ''pi-zero-2w''), (''mode'', JStr ''OCR'')] of
              (Inl e, net') \<Rightarrow> Inl e
            | (Inr result, net') \<Rightarrow>
                Inr (s\<lparr>smoother := fst (smooth (smoother s) ov), total_sent := total_sent s + 1,
                       ocr_success := ocr_success s + 1, net := net'\<rparr>,
                     \<lparr>r_mode = ''OCR'', r_vitals = snd (smooth (smoother s) ov),
                      r_confidence = c, r_result = result\<rparr>))" for h
      using main_tick_OCR[of "s\<lparr>net := h\<rparr>" env frame ov c t] ocr
      by (simp add: send_vitals_eq split: sum.splits)
    from t1 t2 show ?thesis
      unfolding a send_vitals_eq by (auto split: sum.splits if_splits)
  next
    case sim
    have a: "main_tick env (s\<lparr>net := h\<rparr>) =
           (case send_vitals h
                   (snd (smooth (smoother s) (generate_simulation_vitals (rnd env))))
                   (87 / 100 + d_conf (rnd env))
                   [(''source'', JStr ''pi-zero-2w''), (''mode'', JStr ''SIM'')] of
              (Inl e, net') \<Rightarrow> Inl e
            | (Inr result, net') \<Rightarrow>
                Inr (s\<lparr>smoother := fst (smooth (smoother s) (generate_simulation_vitals (rnd env))),
                       total_sent := total_sent s + 1,
                       ocr_success := ocr_success s, net := net'\<rparr>,
                     \<lparr>r_mode = ''SIM'',
                      r_vitals = snd (smooth (smoother s) (generate_simulation_vitals (rnd env))),
                      r_confidence = 87 / 100 + d_conf (rnd env), r_result = result\<rparr>))" for h
      using main_tick_SIM[of "s\<lparr>net := h\<rparr>" env] sim
      by (simp add: send_vitals_eq split: sum.splits)
    from t1 t2 show ?thesis
      unfolding a send_vitals_eq by (auto split: sum.splits if_splits)
  next
    case raises
    with t1 main_tick_raises[of "s\<lparr>net := h1\<rparr>" env frame e] show ?thesis by simp
  qed
qed

text \<open>Only an exception outside \<^verbatim>\<open>Exception\<close> leaves a tick.\<close>

lemma extract_vitals_Inl: "extract_vitals frame = Inl e \<Longrightarrow> frame = Inl e \<and> \<not> is_Exception e"
  by (auto simp: extract_vitals_def Let_def split: sum.splits if_splits)

lemma main_tick_Inl:
  assumes "main_tick env s = Inl x"
  shows "\<not> is_Exception x
       \<and> (grabbed env = Some (Inl x) \<or> respond (net s) (length (requests (net s))) = Inl x)"
proof -
  consider (ocr) frame ov c t where "connected s" "grabbed env = Some frame"
      "extract_vitals frame = Inr (ov, c, t)" "2 \<le> len ov"
  | (sim) "\<not> connected s \<or> grabbed env = None
           \<or> (\<exists>frame ov c t. grabbed env = Some frame
                 \<and> extract_vitals frame = Inr (ov, c, t) \<and> len ov < 2)"
  | (raises) frame e where "connected s" "grabbed env = Some frame" "extract_vitals frame = Inl e"
    by (rule tick_situations)
  then show ?thesis
  proof cases
    case ocr
    from assms show ?thesis
      unfolding main_tick_OCR[OF ocr] send_vitals_eq by (auto split: sum.splits if_splits)
  next
    case sim
    from assms show ?thesis
      unfolding main_tick_SIM[OF sim] send_vitals_eq by (auto split: sum.splits if_splits)
  next
    case raises
    with assms main_tick_raises[OF raises] extract_vitals_Inl[of frame e] show ?thesis by simp
  qed
qed

lemma main_loop_requests:
  "main_loop envs s = Inr (s', rs) \<Longrightarrow>
   length (requests (net s')) = length (requests (net s)) + length envs \<and> length rs = length envs"
proof (induction envs arbitrary: s s' rs)
  case Nil
  then show ?case by simp
next
  case (Cons env envs)
  from Cons.prems obtain s1 r1 s2 rs2 where
    t: "main_tick env s = Inr (s1, r1)" and l: "main_loop envs s1 = Inr (s2, rs2)"
    and eq: "s' = s2" "rs = r1 # rs2"
    by (auto split: sum.splits prod.splits)
  from main_tick_Inr(1)[OF t] have "length (requests (net s1)) = Suc (length (requests (net s)))"
    by simp
  with Cons.IH[OF l] eq show ?case by simp
qed


lemma send_vitals_ocr_eq:
  "send_vitals_ocr h vitals confidence ocr_text =
     (case respond h (length (requests h)) of
        Inr answer \<Rightarrow> Inr answer
      | Inl e \<Rightarrow> if is_Exception e then Inr [(''error'', JStr (str e))] else Inl e,
      h\<lparr>requests := requests h @
           [\<lparr>patientId = PATIENT_ID, cameraId = ''camera-001'',
             p_vitals = prune (unpruned_vitals vitals),
             p_confidence = confidence,
             p_metadata = [(''ocrText'', JStr (take 200 ocr_text)),
                           (''source'', JStr ''mac-ocr-processor'')]\<rparr>]\<rparr>)"
  by (simp add: send_vitals_ocr_def post_payload_eq)

text \<open>
  C7: when the single HTTP POST of a submission raises an exception of class
  \<^verbatim>\<open>Exception\<close> (a network error, a timeout), \<^verbatim>\<open>send_vitals\<close> of
  camera-connector-production.py and of camera-to-dashboard-ocr.py returns the dictionary
  \<^verbatim>\<open>{"error": str(e)}\<close> and has made exactly one request. In the loop of the
  production script such a tick does not raise (only an exception outside
  \<^verbatim>\<open>Exception\<close> coming from the frame leaves it); its result is the error dictionary,
  it has posted once, and the smoother, the counters and the reading are what they are
  under any other behaviour of the network: the failure changes nothing else, and nothing
  is sent again. A run of \<open>n\<close> ticks makes exactly \<open>n\<close> requests, so the next reading
  is posted by the next tick.
\<close>

theorem failed_post_is_dropped:
  assumes fail: "respond h (length (requests h)) = Inl e" and exc: "is_Exception e"
  shows "(\<exists>p. send_vitals h vitals confidence metadata
               = (Inr [(''error'', JStr (str e))], h\<lparr>requests := requests h @ [p]\<rparr>))
       \<and> (\<exists>p. send_vitals_ocr h vitals confidence ocr_text
               = (Inr [(''error'', JStr (str e))], h\<lparr>requests := requests h @ [p]\<rparr>))
       \<and> (\<forall>x. main_tick env (s\<lparr>net := h\<rparr>) = Inl x \<longrightarrow>
               grabbed env = Some (Inl x) \<and> \<not> is_Exception x)
       \<and> (\<forall>s' r. main_tick env (s\<lparr>net := h\<rparr>) = Inr (s', r) \<longrightarrow>
               r_result r = [(''error'', JStr (str e))]
             \<and> length (requests (net s')) = Suc (length (requests h))
             \<and> (\<forall>h2 s2 r2. main_tick env (s\<lparr>net := h2\<rparr>) = Inr (s2, r2) \<longrightarrow>
                    smoother s2 = smoother s' \<and> total_sent s2 = total_sent s'
                  \<and> ocr_success s2 = ocr_success s' \<and> connected s2 = connected s'
                  \<and> r_mode r2 = r_mode r \<and> r_vitals r2 = r_vitals r
                  \<and> r_confidence r2 = r_confidence r
                  \<and> last (requests (net s2)) = last (requests (net s'))))
       \<and> (\<forall>sn rs. main_loop envs s = Inr (sn, rs) \<longrightarrow>
               length (requests (net sn)) = length (requests (net s)) + length envs)"
proof (intro conjI allI impI)
  show "\<exists>p. send_vitals h vitals confidence metadata
               = (Inr [(''error'', JStr (str e))], h\<lparr>requests := requests h @ [p]\<rparr>)"
    using fail exc by (simp add: send_vitals_eq) (rule exI, rule refl)
  show "\<exists>p. send_vitals_ocr h vitals confidence ocr_text
               = (Inr [(''error'', JStr (str e))], h\<lparr>requests := requests h @ [p]\<rparr>)"
    using fail exc by (simp add: send_vitals_ocr_eq) (rule exI, rule refl)
next
  fix x assume "main_tick env (s\<lparr>net := h\<rparr>) = Inl x"
  from main_tick_Inl[OF this] fail exc
  show "grabbed env = Some (Inl x)" and "\<not> is_Exception x" by auto
next
  fix s' r assume t: "main_tick env (s\<lparr>net := h\<rparr>) = Inr (s', r)"
  from main_tick_Inr(2)[OF t] fail exc show "r_result r = [(''error'', JStr (str e))]" by simp
  from main_tick_Inr(1)[OF t] show "length (requests (net s')) = Suc (length (requests h))" by simp
  fix h2 s2 r2 assume t2: "main_tick env (s\<lparr>net := h2\<rparr>) = Inr (s2, r2)"
  note ind = main_tick_net_independent[OF t2 t]
  from ind show "smoother s2 = smoother s'" and "total_sent s2 = total_sent s'"
    and "ocr_success s2 = ocr_success s'" and "connected s2 = connected s'"
    and "r_mode r2 = r_mode r" and "r_vitals r2 = r_vitals r"
    and "r_confidence r2 = r_confidence r" by simp_all
  from main_tick_Inr(1)[OF t] main_tick_Inr(1)[OF t2] ind
  show "last (requests (net s2)) = last (requests (net s'))" by simp
next
  fix sn rs assume "main_loop envs s = Inr (sn, rs)"
  from main_loop_requests[OF this]
  show "length (requests (net sn)) = length (requests (net s)) + length envs" by simp
qed

theorem failed_post_is_dropped_witness:
  "is_Exception (Exn (Other ''ConnectionError'') ''connection refused'')
   \<and> fst (send_vitals \<lparr>requests = [], respond = (\<lambda>n. Inl (Exn (Other ''ConnectionError'') ''connection refused''))\<rparr>
             [HR \<mapsto> 150] (88 / 100) [])
       = Inr [(''error'', JStr ''connection refused'')]
   \<and> (\<exists>s' r. main_tick \<lparr>grabbed = None, rnd = \<lparr>d_hr = 0, d_spo2 = 0, d_rr = 0, d_temp = 0, d_conf = 0\<rparr>\<rparr>
                 (main_init False \<lparr>requests = [], respond = (\<lambda>n. Inl (Exn (Other ''ConnectionError'') ''connection refused''))\<rparr>)
               = Inr (s', r)
            \<and> r_result r = [(''error'', JStr ''connection refused'')]
            \<and> length (requests (net s')) = 1)"
proof -
  let ?e = "Exn (Other ''ConnectionError'') ''connection refused''"
  let ?h = "\<lparr>requests = [], respond = (\<lambda>n. Inl ?e)\<rparr>"
  let ?env = "\<lparr>grabbed = None, rnd = \<lparr>d_hr = 0, d_spo2 = 0, d_rr = 0, d_temp = 0, d_conf = 0\<rparr>\<rparr>"
  have exc: "is_Exception ?e" by (simp add: is_Exception_def)
  have fail: "respond ?h (length (requests ?h)) = Inl ?e" by simp
  note inst = failed_post_is_dropped[OF fail exc, of "[HR \<mapsto> 150]" "88 / 100" "[]" "[]" ?env
      "main_init False ?h" "[]"]
  have s: "(main_init False ?h)\<lparr>net := ?h\<rparr> = main_init False ?h" by (simp add: main_init_def)
  obtain s' r where t: "main_tick ?env (main_init False ?h) = Inr (s', r)"
    using exc by (simp add: main_tick_SIM main_init_def send_vitals_eq)
  from inst t s have "r_result r = [(''error'', JStr ''connection refused'')]"
    and "length (requests (net s')) = 1" by simp_all
  with t exc inst show ?thesis by (auto simp: send_vitals_eq)
qed

lemma vlm_extract_single:
  "extract_vitals_vlm (\<lambda>s. Inl (Exn JSONDecodeError ''Expecting property name''))
       \<lparr>chat = Inr ''{hr: 150}'', elapsed_ms = 1200\<rparr>
     = Inr (vitals_none(Vital HR \<mapsto> Some 150), 6 / 10, 1200, ''{hr: 150}'')"
proof -
  have 1: "re_search json_object ''{hr: 150}'' False = Some ''{hr: 150}''" by code_simp
  have 2: "re_search (fallback_pattern HR) ''{hr: 150}'' True = Some ''150''" by code_simp
  have 3: "re_search (fallback_pattern SPO2) ''{hr: 150}'' True = None" by code_simp
  have 4: "re_search (fallback_pattern RR) ''{hr: 150}'' True = None" by code_simp
  have 5: "re_search (fallback_pattern TEMP) ''{hr: 150}'' True = None" by code_simp
  have 6: "py_float ''150'' = Inr (Finite 150)" by code_simp
  have p: "parse_vitals_response (\<lambda>s. Inl (Exn JSONDecodeError ''Expecting property name'')) ''{hr: 150}''
            = Inr (vitals_none(Vital HR \<mapsto> Some 150))"
    by (simp add: parse_vitals_response_def 1 2 3 4 5 6 is_JSONDecodeError_def kinds_def
          parse_fallback_item_def in_range_def del: fallback_pattern.simps)
  have v: "valid_count (vitals_none(Vital HR \<mapsto> Some 150)) = 1"
    by (simp add: valid_count_def vlm_keys_def vitals_none_def)
  show ?thesis
    by (simp add: extract_vitals_vlm_def p v)
qed


lemma extract_vitals_confidence:
  "extract_vitals frame = Inr (vitals, c, t) \<Longrightarrow> c = 0 \<or> c = 88 / 100"
  by (auto simp: extract_vitals_def Let_def split: sum.splits if_splits)

lemma extract_vitals_vlm_confidence:
  assumes "extract_vitals_vlm json_loads frame = Inr (vitals, c, i, t)"
  shows "c = 0 \<or> (1 / 2 \<le> c \<and> c \<le> 95 / 100)"
proof (cases "chat frame")
  case (Inl e)
  with assms show ?thesis
    by (auto simp: extract_vitals_vlm_def split: if_splits)
next
  case (Inr response_text)
  show ?thesis
  proof (cases "parse_vitals_response json_loads response_text")
    case (Inl e)
    with Inr assms show ?thesis
      by (auto simp: extract_vitals_vlm_def split: if_splits)
  next
    case vit: (Inr v)
    with Inr assms have "c = min (95 / 100) (1 / 2 + of_nat (valid_count v) * (1 / 10))"
      by (auto simp: extract_vitals_vlm_def)
    moreover have "(0::rat) \<le> of_nat (valid_count v) * (1 / 10)" by simp
    ultimately show ?thesis by (simp add: min_def)
  qed
qed

lemma send_vitals_vlm_net:
  "snd (send_vitals_vlm h vv c i t) =
     (if \<exists>k v. vv (Vital k) = Some (Some v) \<and> v \<noteq> 0
      then h\<lparr>requests := requests h @
             [\<lparr>patientId = PATIENT_ID, cameraId = ''camera-vlm-001'',
               p_vitals = prune (unpruned_vitals (\<lambda>k. dict_get vv (Vital k))),
               p_confidence = c,
               p_metadata = [(''source'', JStr ''moondream-vlm''),
                             (''vlm_response'', JStr (take 500 t)),
                             (''bp_sys'', json_of (dict_get vv BP_SYS)),
                             (''bp_dia'', json_of (dict_get vv BP_DIA))]\<rparr>]\<rparr>
      else h)"
proof -
  let ?pruned = "prune (unpruned_vitals (\<lambda>k. dict_get vv (Vital k)))"
  have "list_all (\<lambda>k. ?pruned k = None) kinds \<longleftrightarrow> (\<forall>k. ?pruned k = None)"
    by (auto simp: list_all_iff set_kinds)
  also have "\<dots> \<longleftrightarrow> \<not> (\<exists>k v. vv (Vital k) = Some (Some v) \<and> v \<noteq> 0)"
    by (auto simp: prune_def unpruned_vitals_def dict_get_def payload_entry_not_null
        split: option.splits)
  finally show ?thesis
    by (simp add: send_vitals_vlm_def snd_post_payload)
qed

lemma valid_count_pos:
  "vv (Vital k) = Some (Some v) \<Longrightarrow> 0 < valid_count vv"
proof -
  assume a: "vv (Vital k) = Some (Some v)"
  have "Vital k \<in> set vlm_keys" by (cases k) (simp_all add: vlm_keys_def)
  with a have "filter (\<lambda>k. case vv k of Some (Some v) \<Rightarrow> True | _ \<Rightarrow> False) vlm_keys \<noteq> []"
    by (auto simp: filter_empty_conv intro!: bexI[of _ "Vital k"])
  then show ?thesis by (simp add: valid_count_def)
qed

text \<open>What a tick of the VLM loop that has a frame and returns has posted.\<close>

lemma vlm_tick_Inr:
  assumes "vlm_tick json_loads (Some frame) vs = Inr vs'"
  shows "\<exists>vv c i t. extract_vitals_vlm json_loads frame = Inr (vv, c, i, t)
           \<and> vlm_net vs' = snd (send_vitals_vlm (vlm_net vs) vv c i t)"
proof (cases "extract_vitals_vlm json_loads frame")
  case (Inl e)
  with assms show ?thesis by (simp add: vlm_tick_def)
next
  case (Inr res)
  obtain vv c i t where res: "res = (vv, c, i, t)" by (cases res)
  show ?thesis
  proof (cases "0 < valid_count vv")
    case True
    with assms Inr res have "vlm_net vs' = snd (send_vitals_vlm (vlm_net vs) vv c i t)"
      by (auto simp: vlm_tick_def split: prod.splits sum.splits)
    with Inr res show ?thesis by simp
  next
    case False
    have "\<not> (\<exists>k v. vv (Vital k) = Some (Some v) \<and> v \<noteq> 0)"
    proof
      assume "\<exists>k v. vv (Vital k) = Some (Some v) \<and> v \<noteq> 0"
      then obtain k v where "vv (Vital k) = Some (Some v)" by blast
      then have "0 < valid_count vv" by (rule valid_count_pos)
      with False show False by simp
    qed
    then have "snd (send_vitals_vlm (vlm_net vs) vv c i t) = vlm_net vs"
      by (simp add: send_vitals_vlm_net)
    moreover from False assms Inr res have "vlm_net vs' = vlm_net vs"
      by (auto simp: vlm_tick_def)
    ultimately show ?thesis using Inr res by simp
  qed
qed


text \<open>
  C5: every confidence the scripts compute lies in the closed interval from 0 to 1:
  the one \<^verbatim>\<open>extract_vitals\<close> returns (0 or 0.88), the one
  \<^verbatim>\<open>extract_vitals_vlm\<close> returns (0, or between 0.5 and 0.95), the one a tick of the
  production loop submits, the OCR one or the simulated \<^verbatim>\<open>0.87 + uniform(0, 0.10)\<close>,
  which is also the confidence of the body posted, the one of any body the VLM loop posts,
  and the \<^verbatim>\<open>0.85 + uniform(0, 0.12)\<close> of camera-to-dashboard.py. Confidences are exact
  rationals here, so none of them is a NaN.
\<close>

theorem confidence_in_unit_interval:
  "(extract_vitals frame = Inr (vitals, c, t) \<longrightarrow> 0 \<le> c \<and> c \<le> 1)
 \<and> (extract_vitals_vlm json_loads vframe = Inr (vv, c', i, t') \<longrightarrow> 0 \<le> c' \<and> c' \<le> 1)
 \<and> (simulation_draws (rnd env) \<and> main_tick env s = Inr (s', r) \<longrightarrow>
      0 \<le> r_confidence r \<and> r_confidence r \<le> 1
      \<and> p_confidence (last (requests (net s'))) = r_confidence r)
 \<and> (vlm_tick json_loads (Some vframe) vs = Inr vs' \<longrightarrow>
      (\<forall>p. requests (vlm_net vs') = requests (vlm_net vs) @ [p] \<longrightarrow>
           0 \<le> p_confidence p \<and> p_confidence p \<le> 1))
 \<and> (mock_draws d \<longrightarrow>
      0 \<le> p_confidence (last (requests (snd (mock_tick d h))))
      \<and> p_confidence (last (requests (snd (mock_tick d h)))) \<le> 1)"
proof (intro conjI impI allI)
  assume "extract_vitals frame = Inr (vitals, c, t)"
  from extract_vitals_confidence[OF this] show "0 \<le> c" and "c \<le> 1" by auto
next
  assume "extract_vitals_vlm json_loads vframe = Inr (vv, c', i, t')"
  from extract_vitals_vlm_confidence[OF this] show "0 \<le> c'" and "c' \<le> 1" by auto
next
  assume a: "simulation_draws (rnd env) \<and> main_tick env s = Inr (s', r)"
  then have t: "main_tick env s = Inr (s', r)"
    and d: "0 \<le> d_conf (rnd env)" "d_conf (rnd env) \<le> 10 / 100"
    by (simp_all add: simulation_draws_def)
  from main_tick_Inr(5)[OF t] have "r_confidence r = 0 \<or> r_confidence r = 88 / 100
      \<or> r_confidence r = 87 / 100 + d_conf (rnd env)"
    using extract_vitals_confidence by blast
  with d show "0 \<le> r_confidence r" and "r_confidence r \<le> 1" by auto
  from main_tick_Inr(1)[OF t]
  show "p_confidence (last (requests (net s'))) = r_confidence r" by simp
next
  fix p
  assume t: "vlm_tick json_loads (Some vframe) vs = Inr vs'"
    and p: "requests (vlm_net vs') = requests (vlm_net vs) @ [p]"
  from vlm_tick_Inr[OF t] obtain vv c i t where
    e: "extract_vitals_vlm json_loads vframe = Inr (vv, c, i, t)"
    and n: "vlm_net vs' = snd (send_vitals_vlm (vlm_net vs) vv c i t)" by blast
  from p n have "p_confidence p = c"
    by (auto simp: send_vitals_vlm_net split: if_splits)
  with extract_vitals_vlm_confidence[OF e] show "0 \<le> p_confidence p" and "p_confidence p \<le> 1"
    by auto
next
  assume "mock_draws d"
  then have d: "0 \<le> d_conf d" "d_conf d \<le> 12 / 100" by (simp_all add: mock_draws_def)
  have "p_confidence (last (requests (snd (mock_tick d h)))) = 85 / 100 + d_conf d"
    by (simp add: mock_tick_def send_vitals_mock_def snd_post_payload)
  with d show "0 \<le> p_confidence (last (requests (snd (mock_tick d h))))"
    and "p_confidence (last (requests (snd (mock_tick d h)))) \<le> 1" by auto
qed

theorem confidence_in_unit_interval_witness:
  "simulation_draws \<lparr>d_hr = 3, d_spo2 = - 1, d_rr = 2, d_temp = 1 / 10, d_conf = 5 / 100\<rparr>
   \<and> (\<exists>s' r. main_tick \<lparr>grabbed = None,
                         rnd = \<lparr>d_hr = 3, d_spo2 = - 1, d_rr = 2, d_temp = 1 / 10, d_conf = 5 / 100\<rparr>\<rparr>
                 (main_init False \<lparr>requests = [], respond = (\<lambda>n. Inr [(''success'', JBool True)])\<rparr>)
               = Inr (s', r)
            \<and> r_confidence r = 92 / 100 \<and> 0 \<le> r_confidence r \<and> r_confidence r \<le> 1
            \<and> p_confidence (last (requests (net s'))) = 92 / 100)"
proof -
  let ?d = "\<lparr>d_hr = 3, d_spo2 = - 1, d_rr = 2, d_temp = 1 / 10, d_conf = 5 / 100\<rparr>"
  let ?env = "\<lparr>grabbed = None, rnd = ?d\<rparr>"
  let ?s = "main_init False \<lparr>requests = [], respond = (\<lambda>n. Inr [(''success'', JBool True)])\<rparr>"
  have d: "simulation_draws ?d" by (simp add: simulation_draws_def)
  obtain s' r where t: "main_tick ?env ?s = Inr (s', r)" and c: "r_confidence r = 92 / 100"
    by (simp add: main_tick_SIM main_init_def send_vitals_eq)
  from confidence_in_unit_interval[where env = ?env and s = ?s and s' = s' and r = r] d t
  have "0 \<le> r_confidence r \<and> r_confidence r \<le> 1
        \<and> p_confidence (last (requests (net s'))) = r_confidence r" by simp
  with d t c show ?thesis by auto
qed


text \<open>
  C4, as the code has it. A tick of the production loop that returns has posted exactly
  one body, the pruned reading with its mode. The mode is \<^verbatim>\<open>OCR\<close> only when the
  frame of the tick yielded at least 2 vitals, and the reading is then their smoothed
  values; when extraction yields fewer than 2 vitals (or there is no frame) the mode is
  \<^verbatim>\<open>SIM\<close> and the reading is the simulated reading passed through the smoother,
  with a value for each of the four kinds. The loop of vlm-vitals-extractor.py has neither
  a quorum nor a simulated reading: it posts the extracted values as soon as one of the
  four vitals has a non-zero value, and posts nothing otherwise.
\<close>

theorem ocr_quorum_or_simulation:
  "(main_tick env s = Inr (s', r) \<longrightarrow>
      (\<exists>p. requests (net s') = requests (net s) @ [p]
           \<and> p_vitals p = prune (unpruned_vitals (r_vitals r))
           \<and> p_metadata p = [(''source'', JStr ''pi-zero-2w''), (''mode'', JStr (r_mode r))])
      \<and> (r_mode r = ''OCR'' \<or> r_mode r = ''SIM'')
      \<and> (r_mode r = ''OCR'' \<longrightarrow>
            (\<exists>frame ocr_vitals c t. connected s \<and> grabbed env = Some frame
               \<and> extract_vitals frame = Inr (ocr_vitals, c, t) \<and> 2 \<le> len ocr_vitals
               \<and> r_vitals r = snd (smooth (smoother s) ocr_vitals)
               \<and> len (r_vitals r) = len ocr_vitals))
      \<and> ((\<forall>frame ocr_vitals c t. grabbed env = Some frame
               \<and> extract_vitals frame = Inr (ocr_vitals, c, t) \<longrightarrow> len ocr_vitals < 2)
            \<longrightarrow> r_mode r = ''SIM'')
      \<and> (r_mode r = ''SIM'' \<longrightarrow>
            r_vitals r = snd (smooth (smoother s) (generate_simulation_vitals (rnd env)))
            \<and> (\<forall>k. r_vitals r k \<noteq> None)))
 \<and> (vlm_tick json_loads (Some vframe) vs = Inr vs' \<longrightarrow>
      (\<exists>vv c i t. extract_vitals_vlm json_loads vframe = Inr (vv, c, i, t)
         \<and> (if \<exists>k v. vv (Vital k) = Some (Some v) \<and> v \<noteq> 0
              then \<exists>p. requests (vlm_net vs') = requests (vlm_net vs) @ [p]
                      \<and> p_vitals p = prune (unpruned_vitals (\<lambda>k. dict_get vv (Vital k)))
              else requests (vlm_net vs') = requests (vlm_net vs))))"
proof (rule conjI; rule impI)
  assume t: "main_tick env s = Inr (s', r)"
  note modes = main_tick_Inr(5)[OF t]
  from main_tick_Inr(1)[OF t]
  have A: "\<exists>p. requests (net s') = requests (net s) @ [p]
           \<and> p_vitals p = prune (unpruned_vitals (r_vitals r))
           \<and> p_metadata p = [(''source'', JStr ''pi-zero-2w''), (''mode'', JStr (r_mode r))]"
    by simp
  from modes have B: "r_mode r = ''OCR'' \<or> r_mode r = ''SIM''" by blast
  have C: "\<exists>frame ocr_vitals c t. connected s \<and> grabbed env = Some frame
               \<and> extract_vitals frame = Inr (ocr_vitals, c, t) \<and> 2 \<le> len ocr_vitals
               \<and> r_vitals r = snd (smooth (smoother s) ocr_vitals)
               \<and> len (r_vitals r) = len ocr_vitals" if "r_mode r = ''OCR''"
  proof -
    from modes that obtain frame ov t where
      f: "connected s" "grabbed env = Some frame"
         "extract_vitals frame = Inr (ov, r_confidence r, t)" "2 \<le> len ov"
      and st: "smooth (smoother s) ov = (smoother s', r_vitals r)" by auto
    from len_smooth[OF st] st f show ?thesis by auto
  qed
  have D: "r_mode r = ''SIM''"
    if "\<forall>frame ocr_vitals c t. grabbed env = Some frame
               \<and> extract_vitals frame = Inr (ocr_vitals, c, t) \<longrightarrow> len ocr_vitals < 2"
  proof (rule ccontr)
    assume "r_mode r \<noteq> ''SIM''"
    with modes obtain frame ov t where "grabbed env = Some frame"
      "extract_vitals frame = Inr (ov, r_confidence r, t)" "2 \<le> len ov" by auto
    with that show False by fastforce
  qed
  have E: "r_vitals r = snd (smooth (smoother s) (generate_simulation_vitals (rnd env)))
            \<and> (\<forall>k. r_vitals r k \<noteq> None)" if "r_mode r = ''SIM''"
  proof -
    from modes that have st:
      "smooth (smoother s) (generate_simulation_vitals (rnd env)) = (smoother s', r_vitals r)"
      by auto
    have "r_vitals r k \<noteq> None" for k
      using smooth_total[OF st] generate_simulation_vitals_total by blast
    with st show ?thesis by simp
  qed
  from A B C D E
  show "(\<exists>p. requests (net s') = requests (net s) @ [p]
           \<and> p_vitals p = prune (unpruned_vitals (r_vitals r))
           \<and> p_metadata p = [(''source'', JStr ''pi-zero-2w''), (''mode'', JStr (r_mode r))])
      \<and> (r_mode r = ''OCR'' \<or> r_mode r = ''SIM'')
      \<and> (r_mode r = ''OCR'' \<longrightarrow>
            (\<exists>frame ocr_vitals c t. connected s \<and> grabbed env = Some frame
               \<and> extract_vitals frame = Inr (ocr_vitals, c, t) \<and> 2 \<le> len ocr_vitals
               \<and> r_vitals r = snd (smooth (smoother s) ocr_vitals)
               \<and> len (r_vitals r) = len ocr_vitals))
      \<and> ((\<forall>frame ocr_vitals c t. grabbed env = Some frame
               \<and> extract_vitals frame = Inr (ocr_vitals, c, t) \<longrightarrow> len ocr_vitals < 2)
            \<longrightarrow> r_mode r = ''SIM'')
      \<and> (r_mode r = ''SIM'' \<longrightarrow>
            r_vitals r = snd (smooth (smoother s) (generate_simulation_vitals (rnd env)))
            \<and> (\<forall>k. r_vitals r k \<noteq> None))"
    by (intro conjI impI) blast+
next
  assume t: "vlm_tick json_loads (Some vframe) vs = Inr vs'"
  from vlm_tick_Inr[OF t] obtain vv c i t where
    e: "extract_vitals_vlm json_loads vframe = Inr (vv, c, i, t)"
    and n: "vlm_net vs' = snd (send_vitals_vlm (vlm_net vs) vv c i t)" by blast
  have "if \<exists>k v. vv (Vital k) = Some (Some v) \<and> v \<noteq> 0
        then \<exists>p. requests (vlm_net vs') = requests (vlm_net vs) @ [p]
                \<and> p_vitals p = prune (unpruned_vitals (\<lambda>k. dict_get vv (Vital k)))
        else requests (vlm_net vs') = requests (vlm_net vs)"
    unfolding n send_vitals_vlm_net by simp
  with e show "\<exists>vv c i t. extract_vitals_vlm json_loads vframe = Inr (vv, c, i, t)
         \<and> (if \<exists>k v. vv (Vital k) = Some (Some v) \<and> v \<noteq> 0
              then \<exists>p. requests (vlm_net vs') = requests (vlm_net vs) @ [p]
                      \<and> p_vitals p = prune (unpruned_vitals (\<lambda>k. dict_get vv (Vital k)))
              else requests (vlm_net vs') = requests (vlm_net vs))"
    by blast
qed

lemma extract_single_rr:
  "case extract_vitals (Inr ''HR: 300'') of
     Inr (v, c, t) \<Rightarrow> v HR = None \<and> v SPO2 = None \<and> v RR = Some 30 \<and> v TEMP = None
   | Inl e \<Rightarrow> False"
  by code_simp

theorem ocr_quorum_or_simulation_witness:
  "\<exists>s' r. main_tick \<lparr>grabbed = Some (Inr ''HR: 300''),
                     rnd = \<lparr>d_hr = 3, d_spo2 = - 1, d_rr = 2, d_temp = 1 / 10, d_conf = 5 / 100\<rparr>\<rparr>
             (main_init True \<lparr>requests = [], respond = (\<lambda>n. Inr [(''success'', JBool True)])\<rparr>)
           = Inr (s', r)
        \<and> r_mode r = ''SIM''
        \<and> map (r_vitals r) kinds = [Some 143, Some 95, Some 47, Some (369 / 10)]
        \<and> map (p_vitals (last (requests (net s')))) kinds
            = [Some (JInt 143), Some (JInt 95), Some (JInt 47), Some (JFloat (Finite (369 / 10)))]"
proof -
  let ?d = "\<lparr>d_hr = 3, d_spo2 = - 1, d_rr = 2, d_temp = 1 / 10, d_conf = 5 / 100\<rparr>"
  let ?env = "\<lparr>grabbed = Some (Inr ''HR: 300''), rnd = ?d\<rparr>"
  let ?s = "main_init True \<lparr>requests = [], respond = (\<lambda>n. Inr [(''success'', JBool True)])\<rparr>"
  obtain v c t where e: "extract_vitals (Inr ''HR: 300'') = Inr (v, c, t)"
    and v: "v HR = None" "v SPO2 = None" "v RR = Some 30" "v TEMP = None"
    using extract_single_rr by (auto split: sum.splits)
  from v have l: "len v < 2" by (simp add: len_def kinds_def)
  have sim: "\<not> connected ?s \<or> grabbed ?env = None
           \<or> (\<exists>frame ov c t. grabbed ?env = Some frame
                 \<and> extract_vitals frame = Inr (ov, c, t) \<and> len ov < 2)"
    using e l by auto
  have g: "map (generate_simulation_vitals ?d) kinds = [Some 143, Some 95, Some 47, Some (369 / 10)]"
    by (simp add: generate_simulation_vitals_def kinds_def round1_def round_half_even_def Let_def)
  obtain s' r where t: "main_tick ?env ?s = Inr (s', r)"
    unfolding main_tick_SIM[OF sim] by (simp add: main_init_def send_vitals_eq)
  note inst = ocr_quorum_or_simulation[where env = ?env and s = ?s and s' = s' and r = r]
  have m: "r_mode r = ''SIM''" using inst t e l by auto
  with inst t have rv: "r_vitals r = snd (smooth (smoother ?s) (generate_simulation_vitals ?d))"
    by simp
  have rv': "map (r_vitals r) kinds = [Some 143, Some 95, Some 47, Some (369 / 10)]"
    unfolding rv using g
    by (simp add: main_init_def VitalSmoother_new_def VitalSmoother_init_def smooth_def kinds_def
          smooth_item_def deque_append_def Let_def)
  from inst[THEN conjunct1, THEN mp, OF t, THEN conjunct1]
  obtain p where p: "requests (net s') = requests (net ?s) @ [p]"
    "p_vitals p = prune (unpruned_vitals (r_vitals r))" by blast
  have pv: "map (p_vitals (last (requests (net s')))) kinds
            = [Some (JInt 143), Some (JInt 95), Some (JInt 47), Some (JFloat (Finite (369 / 10)))]"
    using rv' by (simp add: p kinds_def prune_def unpruned_vitals_def py_int_def round1_def
        round_half_even_def Let_def)
  have all: "main_tick ?env ?s = Inr (s', r) \<and> r_mode r = ''SIM''
        \<and> map (r_vitals r) kinds = [Some 143, Some 95, Some 47, Some (369 / 10)]
        \<and> map (p_vitals (last (requests (net s')))) kinds
            = [Some (JInt 143), Some (JInt 95), Some (JInt 47), Some (JFloat (Finite (369 / 10)))]"
    by (rule conjI[OF t conjI[OF m conjI[OF rv' pv]]])
  show ?thesis
    by (rule exI[where x = s'], rule exI[where x = r]) (rule all)
qed



text \<open>
  The claim as the specification states it fails on the loop of vlm-vitals-extractor.py.
  On the response \<^verbatim>\<open>{hr: 150}\<close> (not JSON, so \<^verbatim>\<open>json.loads\<close> raises
  \<^verbatim>\<open>JSONDecodeError\<close> and the fallback pattern reads the heart rate) one vital is
  extracted, and the tick posts a body with that single vital, with confidence 0.6 and the
  source \<^verbatim>\<open>moondream-vlm\<close>: no simulated reading with four kinds takes its place.
\<close>

theorem vlm_submits_single_vital_counterexample:
  "case vlm_tick (\<lambda>s. Inl (Exn JSONDecodeError ''Expecting property name''))
          (Some \<lparr>chat = Inr ''{hr: 150}'', elapsed_ms = 1200\<rparr>)
          \<lparr>total_queries = 0, successful_extractions = 0,
           vlm_net = \<lparr>requests = [], respond = (\<lambda>n. Inr [(''success'', JBool True)])\<rparr>\<rparr> of
     Inl e \<Rightarrow> False
   | Inr s' \<Rightarrow>
       map (\<lambda>p. (map (p_vitals p) kinds, p_confidence p, hd (p_metadata p))) (requests (vlm_net s'))
         = [([Some (JInt 150), None, None, None], 6 / 10, (''source'', JStr ''moondream-vlm''))]"
proof -
  have v: "0 < valid_count (vitals_none(Vital HR \<mapsto> Some 150))"
    by (rule valid_count_pos[of _ HR 150]) simp
  have n: "\<not> list_all (\<lambda>k. prune (unpruned_vitals
              (\<lambda>k. dict_get (vitals_none(Vital HR \<mapsto> Some 150)) (Vital k))) k = None) kinds"
    by (simp add: kinds_def prune_def unpruned_vitals_def dict_get_def)
  show ?thesis
    using v n
    by (simp add: vlm_tick_def vlm_extract_single send_vitals_vlm_def post_payload_eq kinds_def
          prune_def unpruned_vitals_def dict_get_def vitals_none_def py_int_def Let_def)
qed

section \<open>Properties of the extraction\<close>

text \<open>A value stored by the pattern loop was parsed by one of the patterns and is in range.\<close>

lemma try_patterns_Some:
  "try_patterns r ps text = Some v \<Longrightarrow>
     in_range r v
     \<and> (\<exists>pattern \<in> set ps. \<exists>g. re_search pattern text True = Some g \<and> py_float g = Inr (Finite v))"
proof (induction ps)
  case Nil
  then show ?case by simp
next
  case (Cons p ps)
  show ?case
  proof (cases "re_search p text True")
    case None
    with Cons show ?thesis by auto
  next
    case (Some g)
    show ?thesis
    proof (cases "py_float g")
      case (Inl e)
      with Some Cons show ?thesis by auto
    next
      case (Inr x)
      show ?thesis
      proof (cases x)
        case NonFinite
        with Some Inr Cons show ?thesis by auto
      next
        case (Finite w)
        show ?thesis
        proof (cases "in_range r w")
          case True
          with Some Inr Finite Cons.prems have "v = w" by simp
          with True Some Inr Finite show ?thesis by auto
        next
          case False
          with Some Inr Finite Cons show ?thesis by auto
        qed
      qed
    qed
  qed
qed

lemma extract_from_text_kind:
  "extract_from_text pats text k = try_patterns (VALID_RANGES k) (pats k) text"
  by (cases k) (simp_all add: extract_from_text_def kinds_def split: option.splits)

lemma extract_vitals_Inr:
  "extract_vitals frame = Inr (vitals, c, t) \<Longrightarrow>
     (\<exists>e. frame = Inl e \<and> vitals = Map.empty)
     \<or> (\<exists>ocr_text. frame = Inr ocr_text
           \<and> vitals = extract_from_text PATTERNS (replace_newlines (upper ocr_text)))"
  by (auto simp: extract_vitals_def Let_def split: sum.splits if_splits)

lemma extract_vitals_ocr_Inr:
  "extract_vitals_ocr frame = Inr (vitals, conf, t) \<Longrightarrow>
     (\<exists>e. frame = Inl e \<and> vitals = Map.empty)
     \<or> (\<exists>text text_inv. frame = Inr (text, text_inv)
           \<and> vitals = extract_from_text PATTERNS_ocr
                         (replace_newlines (upper (text @ '' '' @ text_inv))))"
  by (auto simp: extract_vitals_ocr_def extract_vitals_from_text_def Let_def
      split: sum.splits if_splits prod.splits)

lemma vlm_sound_none: "vlm_sound data text vitals_none"
  by (simp add: vlm_sound_def vitals_none_def)

lemma parse_json_item_sound:
  assumes "vlm_sound data text vitals" and "parse_json_item data key vitals = Inr vitals'"
  shows "vlm_sound data text vitals'"
proof (cases "vitals' = vitals")
  case True
  with assms show ?thesis by simp
next
  case False
  with assms(2) obtain x w where "data key = Some x" "float_of_json x = Inr (Finite w)"
    "in_range (VALID_RANGES_vlm key) w" "vitals' = vitals(key \<mapsto> Some w)"
    by (auto simp: parse_json_item_def split: option.splits json.splits sum.splits
        pyfloat.splits if_splits)
  with assms(1) show ?thesis by (auto simp: vlm_sound_def)
qed

lemma parse_json_items_sound:
  "vlm_sound data text vitals \<Longrightarrow> parse_json_items data keys vitals = Inr vitals' \<Longrightarrow>
   vlm_sound data text vitals'"
proof (induction keys arbitrary: vitals)
  case Nil
  then show ?case by simp
next
  case (Cons key keys)
  from Cons.prems(2) obtain v1 where 1: "parse_json_item data key vitals = Inr v1"
    and 2: "parse_json_items data keys v1 = Inr vitals'"
    by (auto split: sum.splits)
  from parse_json_item_sound[OF Cons.prems(1) 1] Cons.IH 2 show ?case by blast
qed

lemma parse_fallback_item_sound:
  assumes "vlm_sound data text vitals"
  shows "vlm_sound data text (parse_fallback_item text k vitals)"
proof (cases "parse_fallback_item text k vitals = vitals")
  case True
  with assms show ?thesis by simp
next
  case False
  then obtain g w where "re_search (fallback_pattern k) text True = Some g"
    "py_float g = Inr (Finite w)" "in_range (VALID_RANGES_vlm (Vital k)) w"
    "parse_fallback_item text k vitals = vitals(Vital k \<mapsto> Some w)"
    by (auto simp: parse_fallback_item_def split: option.splits sum.splits pyfloat.splits
        if_splits)
  with assms show ?thesis by (auto simp: vlm_sound_def)
qed

lemma fold_parse_fallback_sound:
  "vlm_sound data text vitals \<Longrightarrow> vlm_sound data text (fold (parse_fallback_item text) ks vitals)"
  by (induction ks arbitrary: vitals) (simp_all add: parse_fallback_item_sound)

lemma parse_vitals_response_sound:
  assumes "parse_vitals_response json_loads response_text = Inr vitals"
  shows "\<exists>data. vlm_sound data response_text vitals
           \<and> (data = Map.empty
                \<or> (\<exists>js. re_search json_object response_text False = Some js
                       \<and> json_loads js = Inr data))"
proof (cases "re_search json_object response_text False")
  case None
  with assms have "vitals = vitals_none" by (simp add: parse_vitals_response_def)
  then show ?thesis using vlm_sound_none[of Map.empty] by blast
next
  case (Some js)
  show ?thesis
  proof (cases "json_loads js")
    case (Inl e)
    with Some assms have "vitals = fold (parse_fallback_item response_text) kinds vitals_none"
      by (auto simp: parse_vitals_response_def split: if_splits)
    then show ?thesis using fold_parse_fallback_sound[OF vlm_sound_none[of Map.empty]] by blast
  next
    case (Inr data)
    show ?thesis
    proof (cases "parse_json_items data vlm_keys vitals_none")
      case items: (Inr v)
      with Some Inr assms have "vitals = v" by (simp add: parse_vitals_response_def)
      with parse_json_items_sound[OF vlm_sound_none items] Some Inr show ?thesis by blast
    next
      case items: (Inl e)
      with Some Inr assms have "vitals = fold (parse_fallback_item response_text) kinds vitals_none"
        by (auto simp: parse_vitals_response_def split: if_splits)
      then show ?thesis using fold_parse_fallback_sound[OF vlm_sound_none[of Map.empty]] by blast
    qed
  qed
qed

text \<open>
  C2: every value in the dictionary that \<^verbatim>\<open>extract_vitals\<close> returns lies within the
  valid range of its kind and is, unchanged, the float that one of the kind's patterns
  captured in the text (no clamping); hence a captured value outside the range is not the
  value stored for the kind. The same range property holds for
  \<^verbatim>\<open>extract_vitals_ocr\<close>, and for \<^verbatim>\<open>parse_vitals_response\<close> with the ranges of
  vlm-vitals-extractor.py, where a stored value is the float of the parsed object's entry
  or of a fallback pattern's capture.
\<close>

theorem extracted_values_in_range:
  "(extract_vitals frame = Inr (vitals, c, t) \<and> vitals k = Some v \<longrightarrow>
      in_range (VALID_RANGES k) v
      \<and> (\<exists>ocr_text pattern g. frame = Inr ocr_text \<and> pattern \<in> set (PATTERNS k)
             \<and> re_search pattern (replace_newlines (upper ocr_text)) True = Some g
             \<and> py_float g = Inr (Finite v)))
 \<and> (extract_vitals (Inr text) = Inr (vitals, c, t) \<and> pattern \<in> set (PATTERNS k)
      \<and> re_search pattern (replace_newlines (upper text)) True = Some g
      \<and> py_float g = Inr (Finite x) \<and> \<not> in_range (VALID_RANGES k) x \<longrightarrow>
      vitals k \<noteq> Some x)
 \<and> (extract_vitals_ocr frame_ocr = Inr (vitals, scores, t) \<and> vitals k = Some v \<longrightarrow>
      in_range (VALID_RANGES k) v)
 \<and> (parse_vitals_response json_loads response_text = Inr vlm_vitals
      \<and> vlm_vitals key = Some (Some w) \<longrightarrow>
      in_range (VALID_RANGES_vlm key) w
      \<and> ((\<exists>js data y. re_search json_object response_text False = Some js
              \<and> json_loads js = Inr data \<and> data key = Some y
              \<and> float_of_json y = Inr (Finite w))
          \<or> (\<exists>k' g'. key = Vital k'
                \<and> re_search (fallback_pattern k') response_text True = Some g'
                \<and> py_float g' = Inr (Finite w))))"
proof (intro conjI)
  have A: "in_range (VALID_RANGES k) v
      \<and> (\<exists>ocr_text pattern g. frame = Inr ocr_text \<and> pattern \<in> set (PATTERNS k)
             \<and> re_search pattern (replace_newlines (upper ocr_text)) True = Some g
             \<and> py_float g = Inr (Finite v))"
    if e: "extract_vitals frame = Inr (vitals, c, t)" and v: "vitals k = Some v"
    for frame vitals c t k v
  proof -
    from extract_vitals_Inr[OF e] v obtain ocr_text where f: "frame = Inr ocr_text"
      and "vitals = extract_from_text PATTERNS (replace_newlines (upper ocr_text))" by auto
    with v have "try_patterns (VALID_RANGES k) (PATTERNS k) (replace_newlines (upper ocr_text)) = Some v"
      by (simp add: extract_from_text_kind)
    from try_patterns_Some[OF this] f show ?thesis by blast
  qed
  from A[of frame vitals c t k v]
  show "extract_vitals frame = Inr (vitals, c, t) \<and> vitals k = Some v \<longrightarrow>
      in_range (VALID_RANGES k) v
      \<and> (\<exists>ocr_text pattern g. frame = Inr ocr_text \<and> pattern \<in> set (PATTERNS k)
             \<and> re_search pattern (replace_newlines (upper ocr_text)) True = Some g
             \<and> py_float g = Inr (Finite v))"
    by blast
  from A[of "Inr text" vitals c t k x]
  show "extract_vitals (Inr text) = Inr (vitals, c, t) \<and> pattern \<in> set (PATTERNS k)
      \<and> re_search pattern (replace_newlines (upper text)) True = Some g
      \<and> py_float g = Inr (Finite x) \<and> \<not> in_range (VALID_RANGES k) x \<longrightarrow>
      vitals k \<noteq> Some x"
    by blast
  show "extract_vitals_ocr frame_ocr = Inr (vitals, scores, t) \<and> vitals k = Some v \<longrightarrow>
      in_range (VALID_RANGES k) v"
  proof
    assume a: "extract_vitals_ocr frame_ocr = Inr (vitals, scores, t) \<and> vitals k = Some v"
    with extract_vitals_ocr_Inr[of frame_ocr vitals scores t] obtain combined where
      "try_patterns (VALID_RANGES k) (PATTERNS_ocr k) combined = Some v"
      by (auto simp: extract_from_text_kind)
    from try_patterns_Some[OF this] show "in_range (VALID_RANGES k) v" by simp
  qed
  show "parse_vitals_response json_loads response_text = Inr vlm_vitals
      \<and> vlm_vitals key = Some (Some w) \<longrightarrow>
      in_range (VALID_RANGES_vlm key) w
      \<and> ((\<exists>js data y. re_search json_object response_text False = Some js
              \<and> json_loads js = Inr data \<and> data key = Some y
              \<and> float_of_json y = Inr (Finite w))
          \<or> (\<exists>k' g'. key = Vital k'
                \<and> re_search (fallback_pattern k') response_text True = Some g'
                \<and> py_float g' = Inr (Finite w)))"
  proof
    assume a: "parse_vitals_response json_loads response_text = Inr vlm_vitals
      \<and> vlm_vitals key = Some (Some w)"
    then obtain data where s: "vlm_sound data response_text vlm_vitals"
      and d: "data = Map.empty \<or> (\<exists>js. re_search json_object response_text False = Some js
                       \<and> json_loads js = Inr data)"
      using parse_vitals_response_sound by blast
    from s a have r: "in_range (VALID_RANGES_vlm key) w"
      and p: "(\<exists>y. data key = Some y \<and> float_of_json y = Inr (Finite w))
            \<or> (\<exists>k g. key = Vital k \<and> re_search (fallback_pattern k) response_text True = Some g
                  \<and> py_float g = Inr (Finite w))"
      by (auto simp: vlm_sound_def)
    from p d have "(\<exists>js data y. re_search json_object response_text False = Some js
              \<and> json_loads js = Inr data \<and> data key = Some y
              \<and> float_of_json y = Inr (Finite w))
          \<or> (\<exists>k' g'. key = Vital k'
                \<and> re_search (fallback_pattern k') response_text True = Some g'
                \<and> py_float g' = Inr (Finite w))"
      by (elim disjE) (simp, blast, blast, blast)
    with r show "in_range (VALID_RANGES_vlm key) w
      \<and> ((\<exists>js data y. re_search json_object response_text False = Some js
              \<and> json_loads js = Inr data \<and> data key = Some y
              \<and> float_of_json y = Inr (Finite w))
          \<or> (\<exists>k' g'. key = Vital k'
                \<and> re_search (fallback_pattern k') response_text True = Some g'
                \<and> py_float g' = Inr (Finite w)))" by simp
  qed
qed

lemma extract_hr_300:
  "case extract_vitals (Inr ''HR: 300 SpO2: 97'') of
     Inr (v, c, t) \<Rightarrow> v HR = None \<and> v SPO2 = Some 97 \<and> v RR = Some 30 \<and> v TEMP = None
   | Inl e \<Rightarrow> False"
  by code_simp

lemma search_hr_300:
  "re_search (hd (PATTERNS HR)) ''HR: 300 SPO2: 97'' True = Some ''300''
   \<and> py_float ''300'' = Inr (Finite 300)"
  by code_simp

theorem extracted_values_in_range_witness:
  "\<exists>vitals c t. extract_vitals (Inr ''HR: 300 SpO2: 97'') = Inr (vitals, c, t)
      \<and> vitals HR = None \<and> vitals SPO2 = Some 97 \<and> in_range (VALID_RANGES SPO2) 97
      \<and> re_search (hd (PATTERNS HR)) ''HR: 300 SPO2: 97'' True = Some ''300''
      \<and> py_float ''300'' = Inr (Finite 300) \<and> \<not> in_range (VALID_RANGES HR) 300"
proof -
  obtain vitals c t where e: "extract_vitals (Inr ''HR: 300 SpO2: 97'') = Inr (vitals, c, t)"
    and v: "vitals HR = None" "vitals SPO2 = Some 97"
    using extract_hr_300 by (auto split: sum.splits)
  from extracted_values_in_range[where frame = "Inr ''HR: 300 SpO2: 97''" and vitals = vitals
      and c = c and t = t and k = SPO2 and v = 97] e v
  have r: "in_range (VALID_RANGES SPO2) 97" by simp
  have n: "\<not> in_range (VALID_RANGES HR) 300" by (simp add: in_range_def)
  have all: "extract_vitals (Inr ''HR: 300 SpO2: 97'') = Inr (vitals, c, t)
      \<and> vitals HR = None \<and> vitals SPO2 = Some 97 \<and> in_range (VALID_RANGES SPO2) 97
      \<and> re_search (hd (PATTERNS HR)) ''HR: 300 SPO2: 97'' True = Some ''300''
      \<and> py_float ''300'' = Inr (Finite 300) \<and> \<not> in_range (VALID_RANGES HR) 300"
    using e v r n search_hr_300 by simp
  show ?thesis
    by (rule exI[where x = vitals], rule exI[where x = c], rule exI[where x = t]) (rule all)
qed








section \<open>The heart-rate scenario\<close>

text \<open>When more than half of the samples lie in an interval, so does the middle element.\<close>

lemma length_filter_mono:
  "(\<And>x. x \<in> set xs \<Longrightarrow> P x \<Longrightarrow> Q x) \<Longrightarrow> length (filter P xs) \<le> length (filter Q xs)"
  by (induction xs) auto

lemma middle_of_sorted_bounds:
  assumes "length buf < 2 * length (filter (\<lambda>x. lo \<le> x \<and> x \<le> hi) buf)"
  shows "lo \<le> middle_of_sorted buf \<and> middle_of_sorted buf \<le> hi"
proof -
  let ?m = "middle_of_sorted buf"
  let ?n = "length (filter (\<lambda>x. lo \<le> x \<and> x \<le> hi) buf)"
  from assms have "buf \<noteq> []" by auto
  from middle_of_sorted_is_median[OF this]
  have below: "2 * length (filter (\<lambda>x. x < ?m) buf) \<le> length buf"
    and above: "2 * length (filter (\<lambda>x. ?m < x) buf) \<le> length buf" by simp_all
  have "lo \<le> ?m"
  proof (rule ccontr)
    assume "\<not> lo \<le> ?m"
    then have "?n \<le> length (filter (\<lambda>x. ?m < x) buf)"
      by (intro length_filter_mono) auto
    with above assms show False by simp
  qed
  moreover have "?m \<le> hi"
  proof (rule ccontr)
    assume "\<not> ?m \<le> hi"
    then have "?n \<le> length (filter (\<lambda>x. x < ?m) buf)"
      by (intro length_filter_mono) auto
    with below assms show False by simp
  qed
  ultimately show ?thesis by simp
qed

text \<open>One push, seen from one kind, for the window of 5.\<close>

lemma smooth_kind:
  assumes "window_size sm = 5"
  shows "history (fst (smooth sm v)) k
           = (case v k of None \<Rightarrow> history sm k | Some x \<Rightarrow> deque_append 5 (history sm k) x)"
    and "snd (smooth sm v) k
           = (case v k of None \<Rightarrow> None
              | Some x \<Rightarrow> Some (if 3 \<le> length (deque_append 5 (history sm k) x)
                                then middle_of_sorted (deque_append 5 (history sm k) x)
                                else x))"
    and "window_size (fst (smooth sm v)) = 5"
proof -
  obtain sm' out where st: "smooth sm v = (sm', out)" by (cases "smooth sm v")
  from smooth_history[OF st, of k, unfolded assms]
  show "history (fst (smooth sm v)) k
           = (case v k of None \<Rightarrow> history sm k | Some x \<Rightarrow> deque_append 5 (history sm k) x)"
    by (simp add: st)
  from smooth_smoothed[OF st, of k, unfolded assms]
  show "snd (smooth sm v) k
           = (case v k of None \<Rightarrow> None
              | Some x \<Rightarrow> Some (if 3 \<le> length (deque_append 5 (history sm k) x)
                                then middle_of_sorted (deque_append 5 (history sm k) x)
                                else x))"
    by (simp add: st)
  from smooth_window_size[OF st] assms show "window_size (fst (smooth sm v)) = 5"
    by (simp add: st)
qed

lemma smooth_run_Cons: "smooth_run sm (p # ps) = smooth_run (fst (smooth sm p)) ps"
  by (simp add: smooth_run_def)

text \<open>
  A run of ticks on a network that raises nothing outside \<^verbatim>\<open>Exception\<close>, each tick
  either accepting the OCR reading of its frame or falling back to simulation on a frame
  with fewer than 2 vitals: the run returns, and the smoother has been pushed the accepted
  or simulated dictionaries in order.
\<close>

lemma main_loop_pushes:
  assumes "connected s" and "\<forall>n x. respond (net s) n = Inl x \<longrightarrow> is_Exception x"
    and "list_all2 (\<lambda>env push.
           (\<exists>frame c t. grabbed env = Some frame \<and> extract_vitals frame = Inr (push, c, t)
              \<and> 2 \<le> len push)
           \<or> ((\<exists>frame ov c t. grabbed env = Some frame \<and> extract_vitals frame = Inr (ov, c, t)
                 \<and> len ov < 2)
              \<and> push = generate_simulation_vitals (rnd env))) envs pushes"
  shows "\<exists>s' rs. main_loop envs s = Inr (s', rs)
           \<and> smoother s' = smooth_run (smoother s) pushes
           \<and> (envs \<noteq> [] \<longrightarrow>
                r_vitals (last rs)
                  = snd (smooth (smooth_run (smoother s) (butlast pushes)) (last pushes)))"
  using assms(3,1,2)
proof (induction envs pushes arbitrary: s rule: list_all2_induct)
  case Nil
  then show ?case by (simp add: smooth_run_Nil)
next
  case (Cons env envs push pushes)
  let ?out = "respond (net s) (length (requests (net s)))"
  have res: "\<exists>result. (case ?out of Inr answer \<Rightarrow> Inr answer
              | Inl e \<Rightarrow> if is_Exception e then Inr [(''error'', JStr (str e))] else Inl e)
            = Inr result"
    using Cons.prems(2) by (cases ?out) auto
  have "\<exists>s1 r1. main_tick env s = Inr (s1, r1) \<and> smoother s1 = fst (smooth (smoother s) push)
          \<and> r_vitals r1 = snd (smooth (smoother s) push)
          \<and> connected s1 \<and> respond (net s1) = respond (net s)"
    using Cons.hyps(1)
  proof (elim disjE exE conjE)
    fix frame c t
    assume o: "grabbed env = Some frame" "extract_vitals frame = Inr (push, c, t)" "2 \<le> len push"
    from res show ?thesis
      unfolding main_tick_OCR[OF Cons.prems(1) o] send_vitals_eq
      using Cons.prems(1) by auto
  next
    fix frame ov c t
    assume o: "grabbed env = Some frame" "extract_vitals frame = Inr (ov, c, t)" "len ov < 2"
      and p: "push = generate_simulation_vitals (rnd env)"
    have sim: "\<not> connected s \<or> grabbed env = None
           \<or> (\<exists>frame ov c t. grabbed env = Some frame
                 \<and> extract_vitals frame = Inr (ov, c, t) \<and> len ov < 2)"
      using o by blast
    from res show ?thesis
      unfolding main_tick_SIM[OF sim] send_vitals_eq p
      using Cons.prems(1) by auto
  qed
  then obtain s1 r1 where t: "main_tick env s = Inr (s1, r1)"
    and sm: "smoother s1 = fst (smooth (smoother s) push)"
    and rv: "r_vitals r1 = snd (smooth (smoother s) push)"
    and c1: "connected s1" and n1: "respond (net s1) = respond (net s)" by blast
  from Cons.prems(2) n1 have "\<forall>n x. respond (net s1) n = Inl x \<longrightarrow> is_Exception x" by simp
  from Cons.IH[OF c1 this] obtain s' rs where l: "main_loop envs s1 = Inr (s', rs)"
    and sm': "smoother s' = smooth_run (smoother s1) pushes"
    and lastv: "envs \<noteq> [] \<longrightarrow>
                r_vitals (last rs)
                  = snd (smooth (smooth_run (smoother s1) (butlast pushes)) (last pushes))"
    by blast
  have len: "length rs = length envs" using main_loop_requests[OF l] by simp
  have len2: "length pushes = length envs" using Cons.hyps(2) by (simp add: list_all2_lengthD)
  have "main_loop (env # envs) s = Inr (s', r1 # rs)" by (simp add: t l)
  moreover have "smoother s' = smooth_run (smoother s) (push # pushes)"
    by (simp add: sm' sm smooth_run_Cons)
  moreover have "r_vitals (last (r1 # rs))
        = snd (smooth (smooth_run (smoother s) (butlast (push # pushes))) (last (push # pushes)))"
  proof (cases envs)
    case Nil
    with len len2 show ?thesis by (simp add: rv smooth_run_Nil)
  next
    case (Cons e es)
    with len len2 have "rs \<noteq> []" "pushes \<noteq> []" by auto
    with lastv Cons show ?thesis by (simp add: sm smooth_run_Cons)
  qed
  ultimately show ?case by blast
qed


lemma extract_hr_150:
  "case extract_vitals (Inr ''HR: 150 SpO2: 97'') of
     Inr (v, c, t) \<Rightarrow> v HR = Some 150 \<and> 2 \<le> len v | Inl e \<Rightarrow> False"
  by code_simp

lemma extract_hr_152:
  "case extract_vitals (Inr ''HR: 152 SpO2: 97'') of
     Inr (v, c, t) \<Rightarrow> v HR = Some 152 \<and> 2 \<le> len v | Inl e \<Rightarrow> False"
  by code_simp

lemma extract_hr_148:
  "case extract_vitals (Inr ''HR: 148 SpO2: 97'') of
     Inr (v, c, t) \<Rightarrow> v HR = Some 148 \<and> 2 \<le> len v | Inl e \<Rightarrow> False"
  by code_simp

lemma extract_hr_151:
  "case extract_vitals (Inr ''HR: 151 SpO2: 97'') of
     Inr (v, c, t) \<Rightarrow> v HR = Some 151 \<and> 2 \<le> len v | Inl e \<Rightarrow> False"
  by code_simp

text \<open>
  C9: the production loop on five frames on which the first heart-rate pattern captures
  150, 152, 300, 148 and 151, on a network that raises nothing outside
  \<^verbatim>\<open>Exception\<close>. The sample 300 is captured and parsed, lies outside the range
  (80, 200) and is not stored: after the third tick the heart-rate buffer is still
  \<open>[150, 152]\<close> and the reading of that tick holds no heart rate. After the fifth tick
  the buffer is \<open>[150, 152, 148, 151]\<close> and the smoothed heart rate is 151, within
  \<open>[148, 152]\<close>. When the third frame yields fewer than 2 vitals, the loop pushes a
  simulated reading instead, whose heart rate enters the buffer in place of the discarded
  300; the smoothed heart rate after the fifth tick is within \<open>[148, 152]\<close> all the
  same, whatever the simulation draws.
\<close>

theorem heart_rate_scenario:
  assumes net: "\<forall>n x. respond h n = Inl x \<longrightarrow> is_Exception x" and d: "simulation_draws d"
  shows "re_search (hd (PATTERNS HR)) ''HR: 300 SPO2: 97'' True = Some ''300''
       \<and> py_float ''300'' = Inr (Finite 300) \<and> \<not> in_range (VALID_RANGES HR) 300
       \<and> (\<exists>s rs. main_loop (map (\<lambda>t. \<lparr>grabbed = Some (Inr t), rnd = d\<rparr>)
                          [''HR: 150 SpO2: 97'', ''HR: 152 SpO2: 97'', ''HR: 300 SpO2: 97''])
                        (main_init True h) = Inr (s, rs)
              \<and> history (smoother s) HR = [150, 152] \<and> r_vitals (last rs) HR = None)
       \<and> (\<exists>s rs. main_loop (map (\<lambda>t. \<lparr>grabbed = Some (Inr t), rnd = d\<rparr>)
                          [''HR: 150 SpO2: 97'', ''HR: 152 SpO2: 97'', ''HR: 300 SpO2: 97'',
                           ''HR: 148 SpO2: 97'', ''HR: 151 SpO2: 97''])
                        (main_init True h) = Inr (s, rs)
              \<and> history (smoother s) HR = [150, 152, 148, 151]
              \<and> r_vitals (last rs) HR = Some 151)
       \<and> (\<exists>s rs. main_loop (map (\<lambda>t. \<lparr>grabbed = Some (Inr t), rnd = d\<rparr>)
                          [''HR: 150 SpO2: 97'', ''HR: 152 SpO2: 97'', ''HR: 300'',
                           ''HR: 148 SpO2: 97'', ''HR: 151 SpO2: 97''])
                        (main_init True h) = Inr (s, rs)
              \<and> history (smoother s) HR = [150, 152, of_int (140 + d_hr d), 148, 151]
              \<and> (\<exists>x. r_vitals (last rs) HR = Some x \<and> 148 \<le> x \<and> x \<le> 152))"
proof -
  let ?P = "\<lambda>env push.
           (\<exists>frame c t. grabbed env = Some frame \<and> extract_vitals frame = Inr (push, c, t)
              \<and> 2 \<le> len push)
           \<or> ((\<exists>frame ov c t. grabbed env = Some frame \<and> extract_vitals frame = Inr (ov, c, t)
                 \<and> len ov < 2)
              \<and> push = generate_simulation_vitals (rnd env))"
  let ?env = "\<lambda>t. \<lparr>grabbed = Some (Inr t), rnd = d\<rparr>"
  let ?s0 = "main_init True h"
  obtain v1 c1 t1 where e1: "extract_vitals (Inr ''HR: 150 SpO2: 97'') = Inr (v1, c1, t1)"
    and v1: "v1 HR = Some 150" and l1: "2 \<le> len v1"
    using extract_hr_150 by (auto split: sum.splits)
  obtain v2 c2 t2 where e2: "extract_vitals (Inr ''HR: 152 SpO2: 97'') = Inr (v2, c2, t2)"
    and v2: "v2 HR = Some 152" and l2: "2 \<le> len v2"
    using extract_hr_152 by (auto split: sum.splits)
  obtain v3 c3 t3 where e3: "extract_vitals (Inr ''HR: 300 SpO2: 97'') = Inr (v3, c3, t3)"
    and v3: "v3 HR = None" and v3': "v3 SPO2 = Some 97" "v3 RR = Some 30"
    using extract_hr_300 by (auto split: sum.splits)
  have l3: "2 \<le> len v3" using v3' by (simp add: len_def kinds_def)
  obtain v4 c4 t4 where e4: "extract_vitals (Inr ''HR: 148 SpO2: 97'') = Inr (v4, c4, t4)"
    and v4: "v4 HR = Some 148" and l4: "2 \<le> len v4"
    using extract_hr_148 by (auto split: sum.splits)
  obtain v5 c5 t5 where e5: "extract_vitals (Inr ''HR: 151 SpO2: 97'') = Inr (v5, c5, t5)"
    and v5: "v5 HR = Some 151" and l5: "2 \<le> len v5"
    using extract_hr_151 by (auto split: sum.splits)
  obtain u c6 t6 where e6: "extract_vitals (Inr ''HR: 300'') = Inr (u, c6, t6)"
    and u: "u HR = None" "u SPO2 = None" "u RR = Some 30" "u TEMP = None"
    using extract_single_rr by (auto split: sum.splits)
  have l6: "len u < 2" using u by (simp add: len_def kinds_def)
  let ?g = "generate_simulation_vitals d"
  have g: "?g HR = Some (of_int (140 + d_hr d))" by (simp add: generate_simulation_vitals_def)
  have p1: "?P (?env ''HR: 150 SpO2: 97'') v1" using e1 l1 by auto
  have p2: "?P (?env ''HR: 152 SpO2: 97'') v2" using e2 l2 by auto
  have p3: "?P (?env ''HR: 300 SpO2: 97'') v3" using e3 l3 by auto
  have p4: "?P (?env ''HR: 148 SpO2: 97'') v4" using e4 l4 by auto
  have p5: "?P (?env ''HR: 151 SpO2: 97'') v5" using e5 l5 by auto
  have p6: "?P (?env ''HR: 300'') ?g" using e6 l6 by auto
  have c0: "connected ?s0" and n0: "\<forall>n x. respond (net ?s0) n = Inl x \<longrightarrow> is_Exception x"
    and sm0: "smoother ?s0 = VitalSmoother_new"
    using net by (simp_all add: main_init_def)
  let ?m0 = VitalSmoother_new
  let ?m1 = "fst (smooth ?m0 v1)"
  let ?m2 = "fst (smooth ?m1 v2)"
  let ?m3 = "fst (smooth ?m2 v3)"
  let ?m4 = "fst (smooth ?m3 v4)"
  let ?m5 = "fst (smooth ?m4 v5)"
  let ?k3 = "fst (smooth ?m2 ?g)"
  let ?k4 = "fst (smooth ?k3 v4)"
  let ?k5 = "fst (smooth ?k4 v5)"
  have w0: "window_size ?m0 = 5" and h0: "history ?m0 HR = []"
    by (simp_all add: VitalSmoother_new_def VitalSmoother_init_def)
  note w1 = smooth_kind(3)[OF w0, of v1]
  note w2 = smooth_kind(3)[OF w1, of v2]
  note w3 = smooth_kind(3)[OF w2, of v3]
  note w4 = smooth_kind(3)[OF w3, of v4]
  note x3 = smooth_kind(3)[OF w2, of ?g]
  note x4 = smooth_kind(3)[OF x3, of v4]
  have h1: "history ?m1 HR = [150]"
    by (simp add: smooth_kind(1)[OF w0] v1 h0 deque_append_def)
  have h2: "history ?m2 HR = [150, 152]"
    by (simp add: smooth_kind(1)[OF w1] v2 h1 deque_append_def)
  have h3: "history ?m3 HR = [150, 152]"
    by (simp add: smooth_kind(1)[OF w2] v3 h2)
  have r3: "snd (smooth ?m2 v3) HR = None"
    by (simp add: smooth_kind(2)[OF w2] v3)
  have h4: "history ?m4 HR = [150, 152, 148]"
    by (simp add: smooth_kind(1)[OF w3] v4 h3 deque_append_def)
  have h5: "history ?m5 HR = [150, 152, 148, 151]"
    by (simp add: smooth_kind(1)[OF w4] v5 h4 deque_append_def)
  have r5: "snd (smooth ?m4 v5) HR = Some 151"
    by (simp add: smooth_kind(2)[OF w4] v5 h4 deque_append_def middle_of_sorted_def)
  have k3: "history ?k3 HR = [150, 152, of_int (140 + d_hr d)]"
    by (simp add: smooth_kind(1)[OF w2] g h2 deque_append_def)
  have k4: "history ?k4 HR = [150, 152, of_int (140 + d_hr d), 148]"
    by (simp add: smooth_kind(1)[OF x3] v4 k3 deque_append_def)
  have k5: "history ?k5 HR = [150, 152, of_int (140 + d_hr d), 148, 151]"
    by (simp add: smooth_kind(1)[OF x4] v5 k4 deque_append_def)
  have q5: "snd (smooth ?k4 v5) HR
              = Some (middle_of_sorted [150, 152, of_int (140 + d_hr d), 148, 151])"
    by (simp add: smooth_kind(2)[OF x4] v5 k4 deque_append_def)
  have b5: "148 \<le> middle_of_sorted [150, 152, of_int (140 + d_hr d), 148, 151]
            \<and> middle_of_sorted [150, 152, of_int (140 + d_hr d), 148, 151] \<le> 152"
    by (rule middle_of_sorted_bounds) simp
  have A: "\<exists>s rs. main_loop (map ?env
                          [''HR: 150 SpO2: 97'', ''HR: 152 SpO2: 97'', ''HR: 300 SpO2: 97''])
                        ?s0 = Inr (s, rs)
              \<and> history (smoother s) HR = [150, 152] \<and> r_vitals (last rs) HR = None"
  proof -
    have "list_all2 ?P (map ?env
              [''HR: 150 SpO2: 97'', ''HR: 152 SpO2: 97'', ''HR: 300 SpO2: 97'']) [v1, v2, v3]"
      using p1 p2 p3 by simp
    from main_loop_pushes[OF c0 n0 this] obtain s rs where
      "main_loop (map ?env [''HR: 150 SpO2: 97'', ''HR: 152 SpO2: 97'', ''HR: 300 SpO2: 97''])
         ?s0 = Inr (s, rs)"
      and "smoother s = smooth_run (smoother ?s0) [v1, v2, v3]"
      and "r_vitals (last rs)
             = snd (smooth (smooth_run (smoother ?s0) (butlast [v1, v2, v3])) (last [v1, v2, v3]))"
      by auto
    then show ?thesis
      by (intro exI[where x = s] exI[where x = rs]) (simp add: sm0 smooth_run_Cons smooth_run_Nil h3 r3)
  qed
  have B: "\<exists>s rs. main_loop (map ?env
                          [''HR: 150 SpO2: 97'', ''HR: 152 SpO2: 97'', ''HR: 300 SpO2: 97'',
                           ''HR: 148 SpO2: 97'', ''HR: 151 SpO2: 97''])
                        ?s0 = Inr (s, rs)
              \<and> history (smoother s) HR = [150, 152, 148, 151]
              \<and> r_vitals (last rs) HR = Some 151"
  proof -
    have "list_all2 ?P (map ?env
              [''HR: 150 SpO2: 97'', ''HR: 152 SpO2: 97'', ''HR: 300 SpO2: 97'',
               ''HR: 148 SpO2: 97'', ''HR: 151 SpO2: 97'']) [v1, v2, v3, v4, v5]"
      using p1 p2 p3 p4 p5 by simp
    from main_loop_pushes[OF c0 n0 this] obtain s rs where
      "main_loop (map ?env [''HR: 150 SpO2: 97'', ''HR: 152 SpO2: 97'', ''HR: 300 SpO2: 97'',
               ''HR: 148 SpO2: 97'', ''HR: 151 SpO2: 97'']) ?s0 = Inr (s, rs)"
      and "smoother s = smooth_run (smoother ?s0) [v1, v2, v3, v4, v5]"
      and "r_vitals (last rs)
             = snd (smooth (smooth_run (smoother ?s0) (butlast [v1, v2, v3, v4, v5]))
                      (last [v1, v2, v3, v4, v5]))"
      by auto
    then show ?thesis
      by (intro exI[where x = s] exI[where x = rs]) (simp add: sm0 smooth_run_Cons smooth_run_Nil h5 r5)
  qed
  have C: "\<exists>s rs. main_loop (map ?env
                          [''HR: 150 SpO2: 97'', ''HR: 152 SpO2: 97'', ''HR: 300'',
                           ''HR: 148 SpO2: 97'', ''HR: 151 SpO2: 97''])
                        ?s0 = Inr (s, rs)
              \<and> history (smoother s) HR = [150, 152, of_int (140 + d_hr d), 148, 151]
              \<and> (\<exists>x. r_vitals (last rs) HR = Some x \<and> 148 \<le> x \<and> x \<le> 152)"
  proof -
    have "list_all2 ?P (map ?env
              [''HR: 150 SpO2: 97'', ''HR: 152 SpO2: 97'', ''HR: 300'',
               ''HR: 148 SpO2: 97'', ''HR: 151 SpO2: 97'']) [v1, v2, ?g, v4, v5]"
      using p1 p2 p6 p4 p5 by simp
    from main_loop_pushes[OF c0 n0 this] obtain s rs where
      "main_loop (map ?env [''HR: 150 SpO2: 97'', ''HR: 152 SpO2: 97'', ''HR: 300'',
               ''HR: 148 SpO2: 97'', ''HR: 151 SpO2: 97'']) ?s0 = Inr (s, rs)"
      and "smoother s = smooth_run (smoother ?s0) [v1, v2, ?g, v4, v5]"
      and "r_vitals (last rs)
             = snd (smooth (smooth_run (smoother ?s0) (butlast [v1, v2, ?g, v4, v5]))
                      (last [v1, v2, ?g, v4, v5]))"
      by auto
    then show ?thesis
      using b5
      by (intro exI[where x = s] exI[where x = rs]) (simp add: sm0 smooth_run_Cons smooth_run_Nil k5 q5)
  qed
  have n: "\<not> in_range (VALID_RANGES HR) 300" by (simp add: in_range_def)
  from search_hr_300 n A B C show ?thesis by (intro conjI) simp_all
qed


theorem heart_rate_scenario_witness:
  "simulation_draws \<lparr>d_hr = 0, d_spo2 = 0, d_rr = 0, d_temp = 0, d_conf = 0\<rparr>
   \<and> (\<exists>s rs. main_loop (map (\<lambda>t. \<lparr>grabbed = Some (Inr t),
                                   rnd = \<lparr>d_hr = 0, d_spo2 = 0, d_rr = 0, d_temp = 0, d_conf = 0\<rparr>\<rparr>)
                          [''HR: 150 SpO2: 97'', ''HR: 152 SpO2: 97'', ''HR: 300 SpO2: 97'',
                           ''HR: 148 SpO2: 97'', ''HR: 151 SpO2: 97''])
                        (main_init True \<lparr>requests = [], respond = (\<lambda>n. Inr [(''success'', JBool True)])\<rparr>)
                = Inr (s, rs)
          \<and> history (smoother s) HR = [150, 152, 148, 151]
          \<and> r_vitals (last rs) HR = Some 151)"
proof -
  let ?d = "\<lparr>d_hr = 0, d_spo2 = 0, d_rr = 0, d_temp = 0, d_conf = 0\<rparr>"
  let ?h = "\<lparr>requests = [], respond = (\<lambda>n. Inr [(''success'', JBool True)])\<rparr>"
  have d: "simulation_draws ?d" by (simp add: simulation_draws_def)
  have n: "\<forall>n x. respond ?h n = Inl x \<longrightarrow> is_Exception x" by simp
  from heart_rate_scenario[OF n d] d show ?thesis by (intro conjI) blast+
qed

end
